theory Spec2Isabelle
  imports Main "HOL-Library.Sublist" "HOL-Library.Char_ord" "HOL-Library.List_Lexorder"
    "HOL-Library.AList"
begin

section \<open>The segmentation matrix script \<^verbatim>\<open>nmapMatrix.py\<close>\<close>

text \<open>
  The script is one linear run: it lists the \<^verbatim>\<open>*.gnmap\<close> files of the working directory,
  derives a segment from each file name, collects the hosts with an open port from each
  file, and renders one table twice (terminal text and an HTML file).

  Conventions of the embedding.
  \<^item> A Python \<^verbatim>\<open>str\<close> is a \<^typ>\<open>string\<close>; a character is a code point below 256.
  \<^item> A Python \<^verbatim>\<open>dict\<close> is an association list in insertion order: assigning to a
    key that is present replaces the value in place, a new key goes to the end
    (\<^const>\<open>AList.update\<close>).
  \<^item> A Python \<^verbatim>\<open>set\<close> of strings is a \<^typ>\<open>string set\<close>. The order in which Python
    iterates over a set is not fixed by the language (string hashes are salted per
    process); it is the parameter \<open>enum\<close> of the functions below.
  \<^item> An uncaught exception is a value \<open>Inl e\<close>.
  \<^item> An input file is its name together with the lines that iterating over the open file
    yields (each line still carries its terminator).
\<close>

subsection \<open>Python string primitives\<close>

text \<open>\<^verbatim>\<open>str.isspace\<close> on one character: the code points below 256 that Python treats as
  whitespace in \<^verbatim>\<open>strip()\<close> and \<^verbatim>\<open>split()\<close>.\<close>

definition py_isspace :: "char \<Rightarrow> bool" where
  "py_isspace c = (c \<in> set [CHR 0x09, CHR 0x0A, CHR 0x0B, CHR 0x0C, CHR 0x0D,
     CHR 0x1C, CHR 0x1D, CHR 0x1E, CHR 0x1F, CHR 0x20, CHR 0x85, CHR 0xA0])"

text \<open>\<^verbatim>\<open>str.lower\<close>. The script only tests the lowered name against the ASCII literals
  \<^verbatim>\<open>"pci -"\<close> and \<^verbatim>\<open>"non pci -"\<close>, and no character outside ASCII lowers to one of their
  letters, so lowering the ASCII capitals decides that test exactly.\<close>

definition py_lower_char :: "char \<Rightarrow> char" where
  "py_lower_char c =
     (case map_of (zip ''ABCDEFGHIJKLMNOPQRSTUVWXYZ'' ''abcdefghijklmnopqrstuvwxyz'') c of
        Some l \<Rightarrow> l
      | None \<Rightarrow> c)"

definition py_lower :: "string \<Rightarrow> string" where
  "py_lower s = map py_lower_char s"

text \<open>\<^verbatim>\<open>s.startswith(p)\<close> and \<^verbatim>\<open>p in s\<close> (substring test).\<close>

fun startswith :: "string \<Rightarrow> string \<Rightarrow> bool" where
  "startswith s [] = True"
| "startswith [] (p # ps) = False"
| "startswith (c # cs) (p # ps) = (c = p \<and> startswith cs ps)"

fun py_in :: "string \<Rightarrow> string \<Rightarrow> bool" where
  "py_in p [] = (p = [])"
| "py_in p (c # cs) = (startswith (c # cs) p \<or> py_in p cs)"

text \<open>\<^verbatim>\<open>s.strip()\<close>: whitespace removed at both ends.\<close>

definition py_strip :: "string \<Rightarrow> string" where
  "py_strip s = rev (dropWhile py_isspace (rev (dropWhile py_isspace s)))"

text \<open>\<^verbatim>\<open>s.split()\<close>: the maximal runs of non-whitespace characters, in order. The first
  argument is the token being read.\<close>

fun py_split_from :: "string \<Rightarrow> string \<Rightarrow> string list" where
  "py_split_from tok [] = (if tok = [] then [] else [tok])"
| "py_split_from tok (c # cs) =
     (if py_isspace c then (if tok = [] then py_split_from [] cs else tok # py_split_from [] cs)
      else py_split_from (tok @ [c]) cs)"

definition py_split :: "string \<Rightarrow> string list" where
  "py_split s = py_split_from [] s"

text \<open>\<^verbatim>\<open>sep.join(xs)\<close>.\<close>

fun py_join :: "string \<Rightarrow> string list \<Rightarrow> string" where
  "py_join sep [] = []"
| "py_join sep [x] = x"
| "py_join sep (x # y # ys) = x @ sep @ py_join sep (y # ys)"

text \<open>\<^verbatim>\<open>s.rfind(c)\<close> for a single character: the last index of \<open>c\<close>, or \<open>-1\<close>.\<close>

fun py_find :: "char \<Rightarrow> string \<Rightarrow> nat option" where
  "py_find c [] = None"
| "py_find c (x # xs) = (if x = c then Some 0 else map_option Suc (py_find c xs))"

definition py_rfind :: "char \<Rightarrow> string \<Rightarrow> int" where
  "py_rfind c s = (case py_find c (rev s) of
       None \<Rightarrow> - 1
     | Some i \<Rightarrow> int (length s) - 1 - int i)"

text \<open>\<^verbatim>\<open>os.path.splitext(p)[0]\<close> (POSIX): the path up to its last dot, when that dot lies
  in the last path component and some character of that component before the dot is not
  a dot; the whole path otherwise.\<close>

definition splitext_root :: "string \<Rightarrow> string" where
  "splitext_root p =
     (let sepIndex = py_rfind CHR ''/'' p;
          dotIndex = py_rfind CHR ''.'' p
      in if dotIndex > sepIndex \<and>
            list_ex (\<lambda>c. c \<noteq> CHR ''.'') (drop (nat (sepIndex + 1)) (take (nat dotIndex) p))
         then take (nat dotIndex) p
         else p)"

subsection \<open>Segment Loader\<close>

datatype seg_type = Pci | NonPci | Unknown

datatype error = IndexError | ValueError | KeyError

text \<open>\<^verbatim>\<open>parse_segment(filename)\<close>. The type strings \<^verbatim>\<open>"pci"\<close>, \<^verbatim>\<open>"non_pci"\<close> and
  \<^verbatim>\<open>"unknown"\<close> of the source are the constructors of \<^typ>\<open>seg_type\<close>.\<close>

definition parse_segment :: "string \<Rightarrow> seg_type \<times> string" where
  "parse_segment filename =
     (let base = splitext_root filename
      in if startswith (py_lower base) ''pci -'' then (Pci, py_strip (drop 6 base))
         else if startswith (py_lower base) ''non pci -'' then (NonPci, py_strip (drop 10 base))
         else (Unknown, base))"

text \<open>An input file: its name, and the lines that \<^verbatim>\<open>for line in f\<close> yields.\<close>

type_synonym gnmap_file = "string \<times> string list"

text \<open>The two dictionaries \<^verbatim>\<open>segment_types\<close> and \<^verbatim>\<open>segment_hosts\<close>, both keyed by the
  segment name.\<close>

type_synonym seg_types = "(string \<times> seg_type) list"
type_synonym seg_hosts = "(string \<times> string set) list"

text \<open>One pass of the inner loop body on \<open>line\<close>: \<^verbatim>\<open>parts[1]\<close> raises \<^verbatim>\<open>IndexError\<close>
  when the line has fewer than two tokens.\<close>

definition scan_line :: "string set \<Rightarrow> string \<Rightarrow> error + string set" where
  "scan_line hosts line =
     (if startswith line ''Host:'' then
        (case py_split line of
           _ # ip # _ \<Rightarrow>
             Inr (if py_in ''Ports:'' line \<and> py_in ''open'' line then insert ip hosts else hosts)
         | _ \<Rightarrow> Inl IndexError)
      else Inr hosts)"

fun scan_lines :: "string set \<Rightarrow> string list \<Rightarrow> error + string set" where
  "scan_lines hosts [] = Inr hosts"
| "scan_lines hosts (line # rest) =
     (case scan_line hosts line of
        Inl e \<Rightarrow> Inl e
      | Inr hosts' \<Rightarrow> scan_lines hosts' rest)"

text \<open>The body of the loop over \<^verbatim>\<open>gnmap_files\<close>: the type is stored before the file is
  read, the host set after.\<close>

definition load_file :: "seg_types \<times> seg_hosts \<Rightarrow> gnmap_file \<Rightarrow> error + seg_types \<times> seg_hosts" where
  "load_file tables file =
     (let (segment_types, segment_hosts) = tables;
          (gnmap_file, lines) = file;
          (seg_type, seg_name) = parse_segment gnmap_file;
          segment_types' = AList.update seg_name seg_type segment_types
      in case scan_lines {} lines of
           Inl e \<Rightarrow> Inl e
         | Inr hosts \<Rightarrow> Inr (segment_types', AList.update seg_name hosts segment_hosts))"

fun load_files :: "seg_types \<times> seg_hosts \<Rightarrow> gnmap_file list \<Rightarrow> error + seg_types \<times> seg_hosts" where
  "load_files tables [] = Inr tables"
| "load_files tables (file # files) =
     (case load_file tables file of
        Inl e \<Rightarrow> Inl e
      | Inr tables' \<Rightarrow> load_files tables' files)"

definition load :: "gnmap_file list \<Rightarrow> error + seg_types \<times> seg_hosts" where
  "load gnmap_files = load_files ([], []) gnmap_files"

subsection \<open>Aggregator\<close>

text \<open>\<^verbatim>\<open>all_hosts\<close>: the union of the host sets, then \<^verbatim>\<open>sorted\<close> over the set as Python
  enumerates it.\<close>

definition union_hosts :: "seg_hosts \<Rightarrow> string set" where
  "union_hosts segment_hosts = fold (\<lambda>hosts all. all \<union> hosts) (map snd segment_hosts) {}"

definition all_hosts :: "(string set \<Rightarrow> string list) \<Rightarrow> seg_hosts \<Rightarrow> string list" where
  "all_hosts enum segment_hosts = sort (enum (union_hosts segment_hosts))"

text \<open>What is known of Python's iteration over a finite set: every element once.\<close>

definition valid_enum :: "(string set \<Rightarrow> string list) \<Rightarrow> bool" where
  "valid_enum enum = (\<forall>S. finite S \<longrightarrow> set (enum S) = S \<and> distinct (enum S))"

definition pci_segments :: "seg_types \<Rightarrow> string list" where
  "pci_segments segment_types = [seg. (seg, typ) \<leftarrow> segment_types, typ = Pci]"

definition non_pci_segments :: "seg_types \<Rightarrow> string list" where
  "non_pci_segments segment_types = [seg. (seg, typ) \<leftarrow> segment_types, typ = NonPci]"

definition unknown_segments :: "seg_types \<Rightarrow> string list" where
  "unknown_segments segment_types =
     [seg. (seg, typ) \<leftarrow> segment_types, typ \<noteq> Pci \<and> typ \<noteq> NonPci]"

definition ordered_segments :: "seg_types \<Rightarrow> string list" where
  "ordered_segments segment_types =
     pci_segments segment_types @ non_pci_segments segment_types @ unknown_segments segment_types"

subsection \<open>Classifier\<close>

text \<open>\<^verbatim>\<open>[seg for seg in segment_hosts if h in segment_hosts[seg]]\<close>: the keys in insertion
  order, each looked up again (a key of the dictionary is always found).\<close>

definition segments_reaching :: "seg_hosts \<Rightarrow> string \<Rightarrow> string list" where
  "segments_reaching segment_hosts h =
     [seg \<leftarrow> map fst segment_hosts.
        (case map_of segment_hosts seg of Some hosts \<Rightarrow> h \<in> hosts | None \<Rightarrow> False)]"

text \<open>\<^verbatim>\<open>any(segment_types.get(seg, "") == t for seg in segments_reaching)\<close>.\<close>

definition has_type :: "seg_types \<Rightarrow> seg_type \<Rightarrow> string list \<Rightarrow> bool" where
  "has_type segment_types t reaching = list_ex (\<lambda>seg. map_of segment_types seg = Some t) reaching"

text \<open>The three-way choice that colours a reachable cell (red, yellow, green), the same in
  the text loop and in the HTML loop.\<close>

datatype tier = Critical | Elevated | Normal

definition tier_of :: "seg_types \<Rightarrow> seg_hosts \<Rightarrow> string \<Rightarrow> tier" where
  "tier_of segment_types segment_hosts h =
     (let reaching = segments_reaching segment_hosts h;
          has_pci = has_type segment_types Pci reaching;
          has_non_pci = has_type segment_types NonPci reaching
      in if has_pci \<and> has_non_pci then Critical
         else if length reaching > 1 then Elevated
         else Normal)"

subsection \<open>Text renderer\<close>

definition RED :: string where "RED = CHR 0x1B # ''[91m''"
definition YELLOW :: string where "YELLOW = CHR 0x1B # ''[93m''"
definition GREEN :: string where "GREEN = CHR 0x1B # ''[92m''"
definition CYAN :: string where "CYAN = CHR 0x1B # ''[96m''"
definition RESET :: string where "RESET = CHR 0x1B # ''[0m''"
definition BOLD :: string where "BOLD = CHR 0x1B # ''[1m''"

definition NL :: string where "NL = [CHR 0x0A]"

text \<open>\<^verbatim>\<open>strip_ansi\<close> deletes every match of the pattern \<^verbatim>\<open>\x1b\[[0-9;]*m\<close>, found from left
  to right. \<open>ansi_len s\<close> is the length of the match that starts at the head of \<open>s\<close>, if
  there is one: the class \<^verbatim>\<open>[0-9;]\<close> does not hold \<^verbatim>\<open>m\<close>, so the longest run decides. The
  first argument of \<open>strip_ansi_from\<close> counts the characters of a match still to drop.\<close>

definition ansi_len :: "string \<Rightarrow> nat option" where
  "ansi_len s =
     (case s of
        e # b # r \<Rightarrow>
          if e = CHR 0x1B \<and> b = CHR ''[''
          then (let params = takeWhile (\<lambda>c. c \<in> set ''0123456789;'') r
                in case drop (length params) r of
                     m # _ \<Rightarrow> if m = CHR ''m'' then Some (length params + 3) else None
                   | [] \<Rightarrow> None)
          else None
      | _ \<Rightarrow> None)"

fun strip_ansi_from :: "nat \<Rightarrow> string \<Rightarrow> string" where
  "strip_ansi_from n [] = []"
| "strip_ansi_from (Suc n) (c # cs) = strip_ansi_from n cs"
| "strip_ansi_from 0 (c # cs) =
     (case ansi_len (c # cs) of
        Some k \<Rightarrow> strip_ansi_from (k - 1) cs
      | None \<Rightarrow> c # strip_ansi_from 0 cs)"

definition strip_ansi :: "string \<Rightarrow> string" where
  "strip_ansi s = strip_ansi_from 0 s"

text \<open>\<^verbatim>\<open>pad_cell\<close>: Python's \<^verbatim>\<open>' ' * n\<close> is empty for \<open>n \<le> 0\<close>, as the truncating
  subtraction of \<^typ>\<open>nat\<close> gives here.\<close>

definition pad_cell :: "string \<Rightarrow> nat \<Rightarrow> string" where
  "pad_cell s width = s @ replicate (width - length (strip_ansi s)) CHR '' ''"

text \<open>\<^verbatim>\<open>max(...)\<close> over a sequence: \<^verbatim>\<open>ValueError\<close> when it is empty.\<close>

definition py_max :: "nat list \<Rightarrow> error + nat" where
  "py_max xs = (case xs of [] \<Rightarrow> Inl ValueError | x # rest \<Rightarrow> Inr (fold max rest x))"

text \<open>\<^verbatim>\<open>host_col_width\<close> and \<^verbatim>\<open>seg_col_width\<close>, computed in this order.\<close>

definition col_widths :: "string list \<Rightarrow> seg_hosts \<Rightarrow> error + nat \<times> nat" where
  "col_widths hosts segment_hosts =
     (case py_max (map length hosts) of
        Inl e \<Rightarrow> Inl e
      | Inr longest_host \<Rightarrow>
          (case py_max (map length (map fst segment_hosts)) of
             Inl e \<Rightarrow> Inl e
           | Inr longest_seg \<Rightarrow> Inr (max 15 (longest_host + 2), max 15 (longest_seg + 2))))"

text \<open>A loop whose body may raise: the results in order, or the first exception.\<close>

fun collect :: "('a \<Rightarrow> error + 'b) \<Rightarrow> 'a list \<Rightarrow> error + 'b list" where
  "collect f [] = Inr []"
| "collect f (x # xs) =
     (case f x of
        Inl e \<Rightarrow> Inl e
      | Inr y \<Rightarrow> (case collect f xs of Inl e \<Rightarrow> Inl e | Inr ys \<Rightarrow> Inr (y # ys)))"

text \<open>One cell of the text matrix. \<^verbatim>\<open>segment_hosts[segment]\<close> raises \<^verbatim>\<open>KeyError\<close> for a
  name that is not a key.\<close>

definition text_cell :: "seg_types \<Rightarrow> seg_hosts \<Rightarrow> string \<Rightarrow> string \<Rightarrow> error + string" where
  "text_cell segment_types segment_hosts h segment =
     (case map_of segment_hosts segment of
        None \<Rightarrow> Inl KeyError
      | Some hosts \<Rightarrow>
          Inr (if h \<in> hosts
               then (case tier_of segment_types segment_hosts h of
                       Critical \<Rightarrow> RED @ ''X'' @ RESET
                     | Elevated \<Rightarrow> YELLOW @ ''X'' @ RESET
                     | Normal \<Rightarrow> GREEN @ ''X'' @ RESET)
               else ''-''))"

definition text_cells :: "seg_types \<Rightarrow> seg_hosts \<Rightarrow> string \<Rightarrow> error + string list" where
  "text_cells segment_types segment_hosts h =
     collect (text_cell segment_types segment_hosts h) (ordered_segments segment_types)"

definition text_row :: "seg_types \<Rightarrow> seg_hosts \<Rightarrow> nat \<Rightarrow> nat \<Rightarrow> string \<Rightarrow> error + string" where
  "text_row segment_types segment_hosts host_col_width seg_col_width h =
     (case text_cells segment_types segment_hosts h of
        Inl e \<Rightarrow> Inl e
      | Inr cells \<Rightarrow>
          Inr (pad_cell h host_col_width @ '' '' @
               concat (map (\<lambda>cell. pad_cell cell seg_col_width) cells)))"

definition text_header :: "seg_types \<Rightarrow> nat \<Rightarrow> nat \<Rightarrow> string" where
  "text_header segment_types host_col_width seg_col_width =
     pad_cell ''Host'' host_col_width @ '' '' @
     py_join '' '' (map (\<lambda>seg. pad_cell seg seg_col_width) (ordered_segments segment_types))"

text \<open>Areas of concern: the entries appended to \<^verbatim>\<open>areas_of_concern\<close> for one host, and
  whether \<^verbatim>\<open>concern_found\<close> is set by it.\<close>

datatype colour = Yellow | Red

definition is_concern :: "seg_types \<Rightarrow> seg_hosts \<Rightarrow> string \<Rightarrow> bool" where
  "is_concern segment_types segment_hosts h =
     (let reaching = segments_reaching segment_hosts h;
          multi = length reaching > 1;
          pci_and_nonpci =
            (has_type segment_types Pci reaching \<and> has_type segment_types NonPci reaching)
      in multi \<or> pci_and_nonpci)"

definition host_concerns :: "seg_types \<Rightarrow> seg_hosts \<Rightarrow> string \<Rightarrow> (colour \<times> string) list" where
  "host_concerns segment_types segment_hosts h =
     (let reaching = segments_reaching segment_hosts h;
          multi = length reaching > 1;
          pci_and_nonpci =
            (has_type segment_types Pci reaching \<and> has_type segment_types NonPci reaching)
      in if multi \<or> pci_and_nonpci
         then (if multi
               then [(Yellow, ''- Host '' @ h @ '' is reachable from multiple segments: '' @
                        py_join '', '' reaching)]
               else []) @
              (if pci_and_nonpci
               then [(Red, ''[!] Host '' @ h @
                        '' is reachable from both PCI and non-PCI segments: '' @
                        py_join '', '' reaching)]
               else [])
         else [])"

definition areas_of_concern :: "seg_types \<Rightarrow> seg_hosts \<Rightarrow> string list \<Rightarrow> (colour \<times> string) list" where
  "areas_of_concern segment_types segment_hosts hosts =
     concat (map (host_concerns segment_types segment_hosts) hosts)"

definition concern_found :: "seg_types \<Rightarrow> seg_hosts \<Rightarrow> string list \<Rightarrow> bool" where
  "concern_found segment_types segment_hosts hosts =
     list_ex (is_concern segment_types segment_hosts) hosts"

definition text_concern :: "colour \<times> string \<Rightarrow> string" where
  "text_concern entry =
     (case entry of (Yellow, msg) \<Rightarrow> YELLOW @ msg @ RESET | (Red, msg) \<Rightarrow> RED @ msg @ RESET)"

definition names_or_none :: "string list \<Rightarrow> string" where
  "names_or_none segs = (if segs \<noteq> [] then py_join '', '' segs else ''None'')"

text \<open>The arguments of the \<^verbatim>\<open>print\<close> calls before the HTML file is written, in order.\<close>

definition text_prints ::
  "seg_types \<Rightarrow> seg_hosts \<Rightarrow> string list \<Rightarrow> nat \<Rightarrow> nat \<Rightarrow> error + string list" where
  "text_prints segment_types segment_hosts hosts host_col_width seg_col_width =
     (let rule = replicate (host_col_width + seg_col_width * length segment_hosts) CHR ''-'';
          header = text_header segment_types host_col_width seg_col_width
      in case collect (text_row segment_types segment_hosts host_col_width seg_col_width) hosts of
           Inl e \<Rightarrow> Inl e
         | Inr rows \<Rightarrow> Inr (
            [BOLD @ ''Segment Classification:'' @ RESET,
             GREEN @ ''PCI Segments:'' @ RESET @ '' '' @
               names_or_none (pci_segments segment_types),
             YELLOW @ ''NON PCI Segments:'' @ RESET @ '' '' @
               names_or_none (non_pci_segments segment_types),
             rule,
             BOLD @ ''Key:'' @ RESET,
             GREEN @ ''X'' @ RESET @
               '' = Host is reachable from this segment (at least one open port found)'',
             YELLOW @ ''X'' @ RESET @
               '' = Host is reachable from multiple segments (potential segmentation issue)'',
             RED @ ''X'' @ RESET @
               '' = Host is reachable from both PCI and non-PCI segments (critical concern)'',
             rule,
             BOLD @ ''Communication Matrix:'' @ RESET @ '' (see key above)'' @ NL,
             header,
             replicate (length header) CHR ''-''] @
            rows @
            [NL @ BOLD @ ''Areas of Concern:'' @ RESET] @
            map text_concern (areas_of_concern segment_types segment_hosts hosts) @
            (if \<not> concern_found segment_types segment_hosts hosts
             then [''No areas of concern detected based on current matrix.'']
             else []) @
            [NL @ BOLD @ ''Client Breakdown:'' @ RESET,
             ''This matrix shows which network segments can communicate with which hosts. Each 'X' means that the host was reachable from that segment during testing.'',
             YELLOW @ ''Yellow X'' @ RESET @
               '': Indicates a host is reachable from more than one segment, which may suggest insufficient network segmentation.'',
             RED @ ''Red X'' @ RESET @
               '': Indicates a host is reachable from both PCI and non-PCI segments, which is a critical concern for compliance and security.'',
             ''We recommend reviewing any yellow or red entries to ensure your segmentation controls meet your policy and compliance requirements.'']))"

subsection \<open>Document renderer\<close>

definition html_th :: "seg_types \<Rightarrow> string \<Rightarrow> string" where
  "html_th segment_types seg =
     (if seg \<in> set (pci_segments segment_types)
      then ''<th style='background:#b3d1ff;color:#003366;'>'' @ seg @ ''</th>''
      else if seg \<in> set (non_pci_segments segment_types)
      then ''<th style='background:#fff2cc;color:#7f6000;'>'' @ seg @ ''</th>''
      else ''<th>'' @ seg @ ''</th>'')"

definition html_cell :: "seg_types \<Rightarrow> seg_hosts \<Rightarrow> string \<Rightarrow> string \<Rightarrow> error + string" where
  "html_cell segment_types segment_hosts h segment =
     (case map_of segment_hosts segment of
        None \<Rightarrow> Inl KeyError
      | Some hosts \<Rightarrow>
          Inr (if h \<in> hosts
               then (let colour = (case tier_of segment_types segment_hosts h of
                                     Critical \<Rightarrow> ''#ffcccc''
                                   | Elevated \<Rightarrow> ''#ffff99''
                                   | Normal \<Rightarrow> ''#ccffcc'')
                     in ''<td style='background:'' @ colour @ '';text-align:center;'>X</td>'')
               else ''<td style='text-align:center;'>-</td>''))"

definition html_cells :: "seg_types \<Rightarrow> seg_hosts \<Rightarrow> string \<Rightarrow> error + string list" where
  "html_cells segment_types segment_hosts h =
     collect (html_cell segment_types segment_hosts h) (ordered_segments segment_types)"

definition html_row :: "seg_types \<Rightarrow> seg_hosts \<Rightarrow> string \<Rightarrow> error + string" where
  "html_row segment_types segment_hosts h =
     (case html_cells segment_types segment_hosts h of
        Inl e \<Rightarrow> Inl e
      | Inr cells \<Rightarrow> Inr (''<tr><td>'' @ h @ ''</td>'' @ concat cells @ ''</tr>'' @ NL))"

definition html_concern :: "colour \<times> string \<Rightarrow> string" where
  "html_concern entry =
     (case entry of
        (Red, msg) \<Rightarrow> ''<div style='color:#b20000;font-weight:bold;'>'' @ msg @ ''</div>'' @ NL
      | (Yellow, msg) \<Rightarrow> ''<div style='color:#b59b00;'>'' @ msg @ ''</div>'' @ NL)"

text \<open>Everything written to \<^verbatim>\<open>segmentation_matrix.html\<close>.\<close>

definition html_document :: "seg_types \<Rightarrow> seg_hosts \<Rightarrow> string list \<Rightarrow> error + string" where
  "html_document segment_types segment_hosts hosts =
     (case collect (html_row segment_types segment_hosts) hosts of
        Inl e \<Rightarrow> Inl e
      | Inr rows \<Rightarrow> Inr (
          ''<html><body>'' @ NL @
          ''<h2>Segment Classification</h2>'' @ NL @
          ''<ul>'' @
          ''<li><b style='color:green;'>PCI Segments:</b> '' @
            names_or_none (pci_segments segment_types) @ ''</li>'' @
          ''<li><b style='color:orange;'>NON PCI Segments:</b> '' @
            names_or_none (non_pci_segments segment_types) @ ''</li>'' @
          ''</ul>'' @
          ''<h2>Communication Matrix</h2>'' @ NL @
          ''<table border='1' cellpadding='5' style='border-collapse:collapse;'>'' @ NL @
          ''<tr><th>Host</th>'' @
          concat (map (html_th segment_types) (ordered_segments segment_types)) @
          ''</tr>'' @ NL @
          concat rows @
          ''</table>'' @ NL @
          ''<p><b>Key:</b><br>'' @
          ''<span style='background:#ccffcc;'>Green</span>: Host is reachable from this segment only.<br>'' @
          ''<span style='background:#ffff99;'>Yellow</span>: Host is reachable from multiple segments.<br>'' @
          ''<span style='background:#ffcccc;'>Red</span>: Host is reachable from both PCI and non-PCI segments.<br>'' @
          ''</p>'' @ NL @
          ''<h2>Areas of Concern</h2>'' @ NL @
          (if areas_of_concern segment_types segment_hosts hosts \<noteq> []
           then concat (map html_concern (areas_of_concern segment_types segment_hosts hosts))
           else ''<div>No areas of concern detected based on current matrix.</div>'' @ NL) @
          ''</body></html>'' @ NL))"

subsection \<open>The whole run\<close>

text \<open>What a completed run leaves behind: the text on standard output and the contents of
  the HTML file. A run that raises is \<open>Inl\<close> of the exception; the loader and the column
  widths raise before anything is printed.\<close>

record report =
  stdout :: string
  html :: string

definition run :: "(string set \<Rightarrow> string list) \<Rightarrow> gnmap_file list \<Rightarrow> error + report" where
  "run enum gnmap_files =
     (case load gnmap_files of
        Inl e \<Rightarrow> Inl e
      | Inr (segment_types, segment_hosts) \<Rightarrow>
          (let hosts = all_hosts enum segment_hosts
           in case col_widths hosts segment_hosts of
                Inl e \<Rightarrow> Inl e
              | Inr (host_col_width, seg_col_width) \<Rightarrow>
                  (case text_prints segment_types segment_hosts hosts
                          host_col_width seg_col_width of
                     Inl e \<Rightarrow> Inl e
                   | Inr prints \<Rightarrow>
                       (case html_document segment_types segment_hosts hosts of
                          Inl e \<Rightarrow> Inl e
                        | Inr document \<Rightarrow>
                            Inr \<lparr>stdout =
                                   concat (map (\<lambda>s. s @ NL)
                                     (prints @
                                      [NL @ CYAN @
                                       ''HTML report generated: segmentation_matrix.html'' @
                                       RESET])),
                                 html = document\<rparr>))))"

subsection \<open>Notions used to state the properties\<close>

text \<open>Host \<open>h\<close> is in the host set stored for segment \<open>seg\<close>.\<close>

definition reaches :: "seg_hosts \<Rightarrow> string \<Rightarrow> string \<Rightarrow> bool" where
  "reaches segment_hosts seg h =
     (case map_of segment_hosts seg of Some hosts \<Rightarrow> h \<in> hosts | None \<Rightarrow> False)"

text \<open>The position of a type in the column order, and the rank of a column name under
  the type table (a name without a type would come last).\<close>

fun type_rank :: "seg_type \<Rightarrow> nat" where
  "type_rank Pci = 0"
| "type_rank NonPci = 1"
| "type_rank Unknown = 2"

definition column_rank :: "seg_types \<Rightarrow> string \<Rightarrow> nat" where
  "column_rank segment_types seg =
     (case map_of segment_types seg of Some t \<Rightarrow> type_rank t | None \<Rightarrow> 3)"

text \<open>Reading a rendered cell back: a text cell shows \<^verbatim>\<open>X\<close> once the colour codes are
  removed; an HTML cell has \<^verbatim>\<open>X\<close> as the content of its \<^verbatim>\<open>td\<close> element.\<close>

definition text_marked :: "string \<Rightarrow> bool" where
  "text_marked cell = (strip_ansi cell = ''X'')"

definition html_marked :: "string \<Rightarrow> bool" where
  "html_marked cell = py_in ''>X</td>'' cell"

text \<open>\<open>name\<close> is \<open>s\<close> trimmed: \<open>s\<close> is \<open>name\<close> between two runs of whitespace, and
  \<open>name\<close> neither starts nor ends with whitespace.\<close>

definition trimmed_of :: "string \<Rightarrow> string \<Rightarrow> bool" where
  "trimmed_of name s =
     (\<exists>before after. s = before @ name @ after \<and>
        list_all py_isspace before \<and> list_all py_isspace after \<and>
        (name = [] \<or> (\<not> py_isspace (hd name) \<and> \<not> py_isspace (last name))))"

text \<open>A cell as each renderer writes it, from the tier of the row's host and from whether
  the column's segment reaches the host.\<close>

definition text_mark :: "tier \<Rightarrow> bool \<Rightarrow> string" where
  "text_mark t reachable =
     (if reachable
      then (case t of
              Critical \<Rightarrow> RED @ ''X'' @ RESET
            | Elevated \<Rightarrow> YELLOW @ ''X'' @ RESET
            | Normal \<Rightarrow> GREEN @ ''X'' @ RESET)
      else ''-'')"

definition html_mark :: "tier \<Rightarrow> bool \<Rightarrow> string" where
  "html_mark t reachable =
     (if reachable
      then (case t of
              Critical \<Rightarrow> ''<td style='background:#ffcccc;text-align:center;'>X</td>''
            | Elevated \<Rightarrow> ''<td style='background:#ffff99;text-align:center;'>X</td>''
            | Normal \<Rightarrow> ''<td style='background:#ccffcc;text-align:center;'>X</td>'')
      else ''<td style='text-align:center;'>-</td>'')"

text \<open>The matrix as it is laid out for given columns (left to right) and rows (top to
  bottom): in text, the header line, the rule under it and one line per row; in HTML, the
  header row and one table row per host.\<close>

definition text_matrix ::
  "string list \<Rightarrow> string list \<Rightarrow> (string \<Rightarrow> string \<Rightarrow> string) \<Rightarrow> nat \<Rightarrow> nat \<Rightarrow> string list" where
  "text_matrix columns rows cell host_col_width seg_col_width =
     (let header = pad_cell ''Host'' host_col_width @ '' '' @
                   py_join '' '' (map (\<lambda>seg. pad_cell seg seg_col_width) columns)
      in header # replicate (length header) CHR ''-'' #
         map (\<lambda>h. pad_cell h host_col_width @ '' '' @
                    concat (map (\<lambda>seg. pad_cell (cell h seg) seg_col_width) columns)) rows)"

definition html_matrix ::
  "string list \<Rightarrow> string list \<Rightarrow> (string \<Rightarrow> string) \<Rightarrow> (string \<Rightarrow> string \<Rightarrow> string) \<Rightarrow> string" where
  "html_matrix columns rows th cell =
     ''<tr><th>Host</th>'' @ concat (map th columns) @ ''</tr>'' @ NL @
     concat (map (\<lambda>h. ''<tr><td>'' @ h @ ''</td>'' @ concat (map (cell h) columns) @
                        ''</tr>'' @ NL) rows)"

text \<open>What the loader keeps true of its two tables: the same names in the same order, each
  name once, every host set finite.\<close>

definition tables_ok :: "seg_types \<times> seg_hosts \<Rightarrow> bool" where
  "tables_ok tables = (map fst (fst tables) = map fst (snd tables) \<and>
     distinct (map fst (snd tables)) \<and> (\<forall>hosts \<in> set (map snd (snd tables)). finite hosts))"

subsection \<open>Sample inputs\<close>

text \<open>Lines as \<^verbatim>\<open>nmap -oG\<close> writes them: a host record with an open port, one with a closed
  port only, and a comment line.\<close>

definition sample_open :: "string \<Rightarrow> string" where
  "sample_open ip = ''Host: '' @ ip @ '' ()'' @ [CHR 0x09] @ ''Ports: 80/open/tcp//http///'' @ NL"

definition sample_closed :: "string \<Rightarrow> string" where
  "sample_closed ip =
     ''Host: '' @ ip @ '' ()'' @ [CHR 0x09] @ ''Ports: 80/closed/tcp//http///'' @ NL"

definition sample_comment :: string where
  "sample_comment = ''# Nmap 7.94 scan initiated as: nmap -oG out.gnmap 10.0.0.0/24'' @ NL"

text \<open>Three files, and the two tables the loader builds from them.\<close>

definition sample_files :: "gnmap_file list" where
  "sample_files =
     [(''PCI - DMZ.gnmap'', [sample_comment, sample_open ''10.0.0.5'']),
      (''NON PCI - Corp.gnmap'',
         [sample_open ''10.0.0.5'', sample_closed ''10.0.0.7'', sample_open ''10.0.0.9'']),
      (''Other.gnmap'', [sample_open ''10.0.0.9''])]"

definition sample_types :: seg_types where
  "sample_types = [(''DMZ'', Pci), (''Corp'', NonPci), (''Other'', Unknown)]"

definition sample_hosts :: seg_hosts where
  "sample_hosts =
     [(''DMZ'', {''10.0.0.5''}), (''Corp'', {''10.0.0.5'', ''10.0.0.9''}),
      (''Other'', {''10.0.0.9''})]"

text \<open>The scenario of two files that both hold the reachable host \<^verbatim>\<open>10.0.0.5\<close>.\<close>

definition scenario_files :: "gnmap_file list" where
  "scenario_files =
     [(''PCI - DMZ.gnmap'', [sample_comment, sample_open ''10.0.0.5'']),
      (''NON PCI - Corp.gnmap'', [sample_open ''10.0.0.5''])]"

text \<open>The matrix of the three sample files, in text and in HTML.\<close>

definition sample_text_matrix :: "string list" where
  "sample_text_matrix =
     [''Host'' @ replicate 11 CHR '' '' @ '' '' @ ''DMZ'' @ replicate 12 CHR '' '' @ '' '' @
        ''Corp'' @ replicate 11 CHR '' '' @ '' '' @ ''Other'' @ replicate 10 CHR '' '',
      replicate 63 CHR ''-'',
      ''10.0.0.5'' @ replicate 7 CHR '' '' @ '' '' @
        RED @ ''X'' @ RESET @ replicate 14 CHR '' '' @
        RED @ ''X'' @ RESET @ replicate 14 CHR '' '' @
        ''-'' @ replicate 14 CHR '' '',
      ''10.0.0.9'' @ replicate 7 CHR '' '' @ '' '' @
        ''-'' @ replicate 14 CHR '' '' @
        YELLOW @ ''X'' @ RESET @ replicate 14 CHR '' '' @
        YELLOW @ ''X'' @ RESET @ replicate 14 CHR '' '']"

definition sample_html_matrix :: string where
  "sample_html_matrix =
     ''<tr><th>Host</th><th style='background:#b3d1ff;color:#003366;'>DMZ</th>'' @
     ''<th style='background:#fff2cc;color:#7f6000;'>Corp</th><th>Other</th></tr>'' @ NL @
     ''<tr><td>10.0.0.5</td><td style='background:#ffcccc;text-align:center;'>X</td>'' @
     ''<td style='background:#ffcccc;text-align:center;'>X</td>'' @
     ''<td style='text-align:center;'>-</td></tr>'' @ NL @
     ''<tr><td>10.0.0.9</td><td style='text-align:center;'>-</td>'' @
     ''<td style='background:#ffff99;text-align:center;'>X</td>'' @
     ''<td style='background:#ffff99;text-align:center;'>X</td></tr>'' @ NL"

text \<open>Everything the scenario prints and writes; \<open>reaching\<close> is the list of segment names
  in the two concern lines, in the order the files were loaded.\<close>

definition scenario_stdout :: "string \<Rightarrow> string" where
  "scenario_stdout reaching = concat (map (\<lambda>s. s @ NL)
     [BOLD @ ''Segment Classification:'' @ RESET,
      GREEN @ ''PCI Segments:'' @ RESET @ '' DMZ'',
      YELLOW @ ''NON PCI Segments:'' @ RESET @ '' Corp'',
      replicate 45 CHR ''-'',
      BOLD @ ''Key:'' @ RESET,
      GREEN @ ''X'' @ RESET @
        '' = Host is reachable from this segment (at least one open port found)'',
      YELLOW @ ''X'' @ RESET @
        '' = Host is reachable from multiple segments (potential segmentation issue)'',
      RED @ ''X'' @ RESET @
        '' = Host is reachable from both PCI and non-PCI segments (critical concern)'',
      replicate 45 CHR ''-'',
      BOLD @ ''Communication Matrix:'' @ RESET @ '' (see key above)'' @ NL,
      ''Host'' @ replicate 11 CHR '' '' @ '' '' @ ''DMZ'' @ replicate 12 CHR '' '' @ '' '' @
        ''Corp'' @ replicate 11 CHR '' '',
      replicate 47 CHR ''-'',
      ''10.0.0.5'' @ replicate 7 CHR '' '' @ '' '' @
        RED @ ''X'' @ RESET @ replicate 14 CHR '' '' @
        RED @ ''X'' @ RESET @ replicate 14 CHR '' '',
      NL @ BOLD @ ''Areas of Concern:'' @ RESET,
      YELLOW @ ''- Host 10.0.0.5 is reachable from multiple segments: '' @ reaching @ RESET,
      RED @ ''[!] Host 10.0.0.5 is reachable from both PCI and non-PCI segments: '' @
        reaching @ RESET,
      NL @ BOLD @ ''Client Breakdown:'' @ RESET,
      ''This matrix shows which network segments can communicate with which hosts. Each 'X' means that the host was reachable from that segment during testing.'',
      YELLOW @ ''Yellow X'' @ RESET @
        '': Indicates a host is reachable from more than one segment, which may suggest insufficient network segmentation.'',
      RED @ ''Red X'' @ RESET @
        '': Indicates a host is reachable from both PCI and non-PCI segments, which is a critical concern for compliance and security.'',
      ''We recommend reviewing any yellow or red entries to ensure your segmentation controls meet your policy and compliance requirements.'',
      NL @ CYAN @ ''HTML report generated: segmentation_matrix.html'' @ RESET])"

definition scenario_html :: "string \<Rightarrow> string" where
  "scenario_html reaching =
     ''<html><body>'' @ NL @
     ''<h2>Segment Classification</h2>'' @ NL @
     ''<ul><li><b style='color:green;'>PCI Segments:</b> DMZ</li>'' @
     ''<li><b style='color:orange;'>NON PCI Segments:</b> Corp</li></ul>'' @
     ''<h2>Communication Matrix</h2>'' @ NL @
     ''<table border='1' cellpadding='5' style='border-collapse:collapse;'>'' @ NL @
     ''<tr><th>Host</th><th style='background:#b3d1ff;color:#003366;'>DMZ</th>'' @
     ''<th style='background:#fff2cc;color:#7f6000;'>Corp</th></tr>'' @ NL @
     ''<tr><td>10.0.0.5</td><td style='background:#ffcccc;text-align:center;'>X</td>'' @
     ''<td style='background:#ffcccc;text-align:center;'>X</td></tr>'' @ NL @
     ''</table>'' @ NL @
     ''<p><b>Key:</b><br>'' @
     ''<span style='background:#ccffcc;'>Green</span>: Host is reachable from this segment only.<br>'' @
     ''<span style='background:#ffff99;'>Yellow</span>: Host is reachable from multiple segments.<br>'' @
     ''<span style='background:#ffcccc;'>Red</span>: Host is reachable from both PCI and non-PCI segments.<br>'' @
     ''</p>'' @ NL @
     ''<h2>Areas of Concern</h2>'' @ NL @
     ''<div style='color:#b59b00;'>- Host 10.0.0.5 is reachable from multiple segments: '' @
       reaching @ ''</div>'' @ NL @
     ''<div style='color:#b20000;font-weight:bold;'>[!] Host 10.0.0.5 is reachable from both PCI and non-PCI segments: '' @
       reaching @ ''</div>'' @ NL @
     ''</body></html>'' @ NL"

section \<open>Properties\<close>

subsection \<open>String primitives\<close>

lemma startswith_take: "startswith s p \<longleftrightarrow> take (length p) s = p"
  by (induction s p rule: startswith.induct) auto

lemma startswith_pci: "startswith (py_lower base) ''pci -'' \<longleftrightarrow> py_lower (take 5 base) = ''pci -''"
  using startswith_take [of "py_lower base" "''pci -''"]
  by (simp add: py_lower_def take_map eval_nat_numeral)

lemma startswith_non_pci:
  "startswith (py_lower base) ''non pci -'' \<longleftrightarrow> py_lower (take 9 base) = ''non pci -''"
  using startswith_take [of "py_lower base" "''non pci -''"]
  by (simp add: py_lower_def take_map eval_nat_numeral)

lemma non_pci_not_pci:
  assumes "py_lower (take 9 base) = ''non pci -''"
  shows "py_lower (take 5 base) \<noteq> ''pci -''"
proof -
  have "py_lower (take 5 base) = take 5 (py_lower (take 9 base))"
    by (simp add: py_lower_def take_map)
  also have "\<dots> = ''non p''" by (simp add: assms)
  finally show ?thesis by simp
qed

lemma startswith_iff: "startswith s p \<longleftrightarrow> (\<exists>post. s = p @ post)"
  by (induction s p rule: startswith.induct) auto

lemma py_in_iff: "py_in p s \<longleftrightarrow> (\<exists>pre post. s = pre @ p @ post)"
proof (induction s)
  case Nil
  then show ?case by simp
next
  case (Cons c cs)
  show ?case
  proof
    assume "py_in p (c # cs)"
    then consider "startswith (c # cs) p" | "py_in p cs" by auto
    then show "\<exists>pre post. c # cs = pre @ p @ post"
    proof cases
      case 1
      then obtain post where "c # cs = [] @ p @ post" by (auto simp: startswith_iff)
      then show ?thesis by blast
    next
      case 2
      then obtain pre post where "cs = pre @ p @ post" using Cons.IH by blast
      then have "c # cs = (c # pre) @ p @ post" by simp
      then show ?thesis by blast
    qed
  next
    assume "\<exists>pre post. c # cs = pre @ p @ post"
    then obtain pre post where eq: "c # cs = pre @ p @ post" by blast
    show "py_in p (c # cs)"
    proof (cases pre)
      case Nil
      with eq have "startswith (c # cs) p" by (simp add: startswith_iff)
      then show ?thesis by simp
    next
      case (Cons a pre')
      with eq have "cs = pre' @ p @ post" by simp
      with Cons.IH show ?thesis by auto
    qed
  qed
qed

lemma dropWhile_split:
  "\<exists>before. s = before @ dropWhile P s \<and> list_all P before \<and>
     (dropWhile P s = [] \<or> \<not> P (hd (dropWhile P s)))"
proof -
  have "s = takeWhile P s @ dropWhile P s" by simp
  moreover have "list_all P (takeWhile P s)"
    by (simp add: list_all_iff) (meson set_takeWhileD)
  moreover have "dropWhile P s = [] \<or> \<not> P (hd (dropWhile P s))"
    by (metis hd_dropWhile)
  ultimately show ?thesis by blast
qed

lemma py_strip_trimmed: "trimmed_of (py_strip s) s"
proof -
  let ?m = "dropWhile py_isspace s"
  let ?n = "py_strip s"
  obtain before where b: "s = before @ ?m" "list_all py_isspace before"
    and bh: "?m = [] \<or> \<not> py_isspace (hd ?m)"
    using dropWhile_split [of s py_isspace] by blast
  obtain ra where a: "rev ?m = ra @ dropWhile py_isspace (rev ?m)" "list_all py_isspace ra"
    and ah: "dropWhile py_isspace (rev ?m) = [] \<or> \<not> py_isspace (hd (dropWhile py_isspace (rev ?m)))"
    using dropWhile_split [of "rev ?m" py_isspace] by blast
  have n: "?n = rev (dropWhile py_isspace (rev ?m))" by (simp add: py_strip_def)
  from a(1) have m: "?m = ?n @ rev ra"
    by (metis n rev_append rev_rev_ident)
  have "s = before @ ?n @ rev ra" using b(1) m by simp
  moreover have "list_all py_isspace (rev ra)" using a(2) by (simp add: list_all_iff)
  moreover have "?n = [] \<or> (\<not> py_isspace (hd ?n) \<and> \<not> py_isspace (last ?n))"
  proof (cases "?n = []")
    case True
    then show ?thesis by simp
  next
    case False
    then have ne: "dropWhile py_isspace (rev ?m) \<noteq> []" using n by simp
    with ah have "\<not> py_isspace (hd (dropWhile py_isspace (rev ?m)))" by blast
    then have l: "\<not> py_isspace (last ?n)" using n ne by (simp add: last_rev)
    from False m have "?m \<noteq> []" by auto
    with bh have "\<not> py_isspace (hd ?m)" by blast
    moreover have "hd ?m = hd ?n" using m False by (metis hd_append2)
    ultimately show ?thesis using l by simp
  qed
  ultimately show ?thesis using b(2) unfolding trimmed_of_def by blast
qed

lemma py_find_append:
  "c \<notin> set xs \<Longrightarrow> py_find c (xs @ c # ys) = Some (length xs)"
  by (induction xs) auto

lemma py_find_absent: "c \<notin> set xs \<Longrightarrow> py_find c xs = None"
  by (induction xs) auto

lemma py_rfind_absent: "c \<notin> set s \<Longrightarrow> py_rfind c s = - 1"
  by (simp add: py_rfind_def py_find_absent)

lemma py_rfind_last:
  assumes "c \<notin> set ext"
  shows "py_rfind c (stem @ c # ext) = int (length stem)"
proof -
  have "py_find c (rev (stem @ c # ext)) = Some (length ext)"
    using py_find_append [of c "rev ext" "rev stem"] assms by simp
  then show ?thesis by (simp add: py_rfind_def)
qed

lemma splitext_root_stem:
  assumes "CHR ''.'' \<notin> set ext" and "CHR ''/'' \<notin> set (stem @ ext)"
    and "list_ex (\<lambda>c. c \<noteq> CHR ''.'') stem"
  shows "splitext_root (stem @ CHR ''.'' # ext) = stem"
proof -
  have sep: "py_rfind CHR ''/'' (stem @ CHR ''.'' # ext) = - 1"
    using assms(2) by (intro py_rfind_absent) auto
  have dot: "py_rfind CHR ''.'' (stem @ CHR ''.'' # ext) = int (length stem)"
    using assms(1) by (rule py_rfind_last)
  show ?thesis using assms(3) by (simp add: splitext_root_def sep dot)
qed

lemma trimmed_of_unique:
  assumes "trimmed_of name s"
  shows "name = py_strip s"
proof -
  from assms obtain before after where s: "s = before @ name @ after"
    and b: "list_all py_isspace before" and a: "list_all py_isspace after"
    and n: "name = [] \<or> (\<not> py_isspace (hd name) \<and> \<not> py_isspace (last name))"
    unfolding trimmed_of_def by blast
  show ?thesis
  proof (cases "name = []")
    case True
    with s b a have "list_all py_isspace s" by simp
    then have "dropWhile py_isspace s = []"
      by (metis dropWhile_eq_Nil_conv list_all_iff)
    with True show ?thesis by (simp add: py_strip_def del: dropWhile_eq_Nil_conv)
  next
    case False
    with n have h: "\<not> py_isspace (hd name)" and l: "\<not> py_isspace (last name)" by simp_all
    from b have "dropWhile py_isspace (before @ name @ after) = dropWhile py_isspace (name @ after)"
      by (intro dropWhile_append2) (simp add: list_all_iff)
    also have "\<dots> = name @ after"
      using False h by (cases name) simp_all
    finally have d: "dropWhile py_isspace s = name @ after" using s by simp
    from a have "dropWhile py_isspace (rev after @ rev name) = dropWhile py_isspace (rev name)"
      by (intro dropWhile_append2) (simp add: list_all_iff)
    also have "\<dots> = rev name"
      using False l by (cases "rev name") (auto simp: last_rev [symmetric] hd_rev)
    finally show ?thesis by (simp add: py_strip_def d)
  qed
qed

text \<open>
  Claim C7. For every file name, with \<open>base\<close> the name without its extension:
  when the first five characters of \<open>base\<close>, lowered, are \<^verbatim>\<open>pci -\<close>, the segment has type
  \<open>Pci\<close> and its name is \<open>base\<close> without its first six characters, trimmed; when the
  first nine, lowered, are \<^verbatim>\<open>non pci -\<close>, the type is \<open>NonPci\<close> and the name is \<open>base\<close>
  without its first ten characters, trimmed; in every other case the type is \<open>Unknown\<close>
  and the name is the whole of \<open>base\<close>. Trimmed means: the whitespace at both ends is
  gone and nothing else. For a name \<open>stem.ext\<close> with no dot in \<open>ext\<close>, no slash, and a
  character other than a dot in \<open>stem\<close>, \<open>base\<close> is \<open>stem\<close>, whatever dots \<open>stem\<close> holds.
\<close>

theorem parse_segment_prefix_rule:
  "(py_lower (take 5 (splitext_root filename)) = ''pci -'' \<longrightarrow>
      parse_segment filename = (Pci, py_strip (drop 6 (splitext_root filename))) \<and>
      trimmed_of (snd (parse_segment filename)) (drop 6 (splitext_root filename))) \<and>
   (py_lower (take 9 (splitext_root filename)) = ''non pci -'' \<longrightarrow>
      parse_segment filename = (NonPci, py_strip (drop 10 (splitext_root filename))) \<and>
      trimmed_of (snd (parse_segment filename)) (drop 10 (splitext_root filename))) \<and>
   (py_lower (take 5 (splitext_root filename)) \<noteq> ''pci -'' \<and>
    py_lower (take 9 (splitext_root filename)) \<noteq> ''non pci -'' \<longrightarrow>
      parse_segment filename = (Unknown, splitext_root filename)) \<and>
   (filename = stem @ CHR ''.'' # ext \<and> CHR ''.'' \<notin> set ext \<and>
    CHR ''/'' \<notin> set (stem @ ext) \<and> list_ex (\<lambda>c. c \<noteq> CHR ''.'') stem \<longrightarrow>
      splitext_root filename = stem)"
  using non_pci_not_pci [of "splitext_root filename"] splitext_root_stem [of ext stem]
    py_strip_trimmed
  by (simp add: parse_segment_def startswith_pci startswith_non_pci Let_def)

lemma splitext_samples:
  "splitext_root ''PCI -  DMZ.v2 .gnmap'' = ''PCI -  DMZ.v2 ''"
  "splitext_root ''non pci -  Corp .gnmap'' = ''non pci -  Corp ''"
  "splitext_root ''Other.scan.gnmap'' = ''Other.scan''"
  by (simp_all add: splitext_root_def py_rfind_def)

theorem parse_segment_prefix_rule_witness:
  "parse_segment ''PCI -  DMZ.v2 .gnmap'' = (Pci, ''DMZ.v2'') \<and>
   trimmed_of ''DMZ.v2'' '' DMZ.v2 '' \<and>
   parse_segment ''non pci -  Corp .gnmap'' = (NonPci, ''Corp'') \<and>
   trimmed_of ''Corp'' '' Corp '' \<and>
   parse_segment ''Other.scan.gnmap'' = (Unknown, ''Other.scan'') \<and>
   splitext_root ''Other.scan.gnmap'' = ''Other.scan''"
proof -
  have a: "py_lower (take 5 (splitext_root ''PCI -  DMZ.v2 .gnmap'')) = ''pci -''"
    by (simp add: splitext_samples py_lower_def py_lower_char_def)
  have b: "py_lower (take 9 (splitext_root ''non pci -  Corp .gnmap'')) = ''non pci -''"
    by (simp add: splitext_samples py_lower_def py_lower_char_def)
  have c: "py_lower (take 5 (splitext_root ''Other.scan.gnmap'')) \<noteq> ''pci -'' \<and>
           py_lower (take 9 (splitext_root ''Other.scan.gnmap'')) \<noteq> ''non pci -''"
    by (simp add: splitext_samples py_lower_def py_lower_char_def)
  have d: "''Other.scan.gnmap'' = ''Other.scan'' @ CHR ''.'' # ''gnmap'' \<and>
           CHR ''.'' \<notin> set ''gnmap'' \<and> CHR ''/'' \<notin> set (''Other.scan'' @ ''gnmap'') \<and>
           list_ex (\<lambda>c. c \<noteq> CHR ''.'') ''Other.scan''"
    by simp
  from a parse_segment_prefix_rule [of "''PCI -  DMZ.v2 .gnmap''"]
  have "parse_segment ''PCI -  DMZ.v2 .gnmap'' =
          (Pci, py_strip (drop 6 (splitext_root ''PCI -  DMZ.v2 .gnmap''))) \<and>
        trimmed_of (snd (parse_segment ''PCI -  DMZ.v2 .gnmap''))
          (drop 6 (splitext_root ''PCI -  DMZ.v2 .gnmap''))"
    by blast
  then have 1: "parse_segment ''PCI -  DMZ.v2 .gnmap'' = (Pci, ''DMZ.v2'') \<and>
      trimmed_of ''DMZ.v2'' '' DMZ.v2 ''"
    by (auto simp: splitext_samples py_strip_def py_isspace_def)
  from b parse_segment_prefix_rule [of "''non pci -  Corp .gnmap''"]
  have "parse_segment ''non pci -  Corp .gnmap'' =
          (NonPci, py_strip (drop 10 (splitext_root ''non pci -  Corp .gnmap''))) \<and>
        trimmed_of (snd (parse_segment ''non pci -  Corp .gnmap''))
          (drop 10 (splitext_root ''non pci -  Corp .gnmap''))"
    by blast
  then have 2: "parse_segment ''non pci -  Corp .gnmap'' = (NonPci, ''Corp'') \<and>
      trimmed_of ''Corp'' '' Corp ''"
    by (auto simp: splitext_samples py_strip_def py_isspace_def)
  from c parse_segment_prefix_rule [of "''Other.scan.gnmap''"]
  have "parse_segment ''Other.scan.gnmap'' = (Unknown, splitext_root ''Other.scan.gnmap'')"
    by blast
  moreover from d parse_segment_prefix_rule [of "''Other.scan.gnmap''" "''Other.scan''" "''gnmap''"]
  have "splitext_root ''Other.scan.gnmap'' = ''Other.scan''"
    by blast
  ultimately show ?thesis using 1 2 by simp
qed

subsection \<open>Scanning the lines of a file\<close>

lemma two_tokens: "2 \<le> length xs \<longleftrightarrow> (\<exists>a b r. xs = a # b # r)"
proof (cases xs)
  case Nil
  then show ?thesis by simp
next
  case (Cons a ys)
  then show ?thesis by (cases ys) auto
qed

lemma scan_line_not_host: "\<not> startswith line ''Host:'' \<Longrightarrow> scan_line hosts line = Inr hosts"
  by (simp add: scan_line_def)

lemma scan_line_host:
  assumes "startswith line ''Host:''" and "2 \<le> length (py_split line)"
  shows "scan_line hosts line =
     Inr (if py_in ''Ports:'' line \<and> py_in ''open'' line
          then insert (py_split line ! 1) hosts else hosts)"
proof -
  from assms(2) obtain t ip ts where "py_split line = t # ip # ts"
    unfolding two_tokens by blast
  with assms(1) show ?thesis by (simp add: scan_line_def)
qed

lemma scan_line_short:
  assumes "startswith line ''Host:''" and "length (py_split line) < 2"
  shows "scan_line hosts line = Inl IndexError"
proof -
  from assms(2) have "\<not> (\<exists>a b r. py_split line = a # b # r)"
    using two_tokens [of "py_split line"] by simp
  with assms(1) show ?thesis
    by (auto simp: scan_line_def split: list.splits)
qed

lemma scan_line_error: "scan_line hosts line = Inl e \<Longrightarrow> e = IndexError"
  by (auto simp: scan_line_def split: if_splits list.splits)

lemma scan_lines_ok:
  assumes "\<forall>line \<in> set lines. startswith line ''Host:'' \<longrightarrow> 2 \<le> length (py_split line)"
  shows "scan_lines hosts lines =
     Inr (hosts \<union> {ip. \<exists>line \<in> set lines. startswith line ''Host:'' \<and> py_in ''Ports:'' line \<and>
                     py_in ''open'' line \<and> ip = py_split line ! 1})"
  using assms
proof (induction lines arbitrary: hosts)
  case Nil
  then show ?case by simp
next
  case (Cons line rest)
  show ?case
  proof (cases "startswith line ''Host:''")
    case False
    then have "scan_lines hosts (line # rest) = scan_lines hosts rest"
      by (simp add: scan_line_not_host)
    also have "\<dots> = Inr (hosts \<union> {ip. \<exists>line \<in> set rest. startswith line ''Host:'' \<and>
          py_in ''Ports:'' line \<and> py_in ''open'' line \<and> ip = py_split line ! 1})"
      using Cons.IH Cons.prems by simp
    finally show ?thesis using False by auto
  next
    case True
    with Cons.prems have two: "2 \<le> length (py_split line)" by simp
    let ?hosts' = "if py_in ''Ports:'' line \<and> py_in ''open'' line
          then insert (py_split line ! 1) hosts else hosts"
    have "scan_lines hosts (line # rest) = scan_lines ?hosts' rest"
      using scan_line_host [OF True two, of hosts] by simp
    also have "\<dots> = Inr (?hosts' \<union> {ip. \<exists>line \<in> set rest. startswith line ''Host:'' \<and>
          py_in ''Ports:'' line \<and> py_in ''open'' line \<and> ip = py_split line ! 1})"
      using Cons.IH Cons.prems by simp
    finally show ?thesis using True by auto
  qed
qed

lemma scan_lines_error: "scan_lines hosts lines = Inl e \<Longrightarrow> e = IndexError"
proof (induction lines arbitrary: hosts)
  case Nil
  then show ?case by simp
next
  case (Cons line rest)
  then show ?case
    by (auto split: sum.splits dest: scan_line_error)
qed

lemma scan_lines_short:
  assumes "line \<in> set lines" and "startswith line ''Host:''" and "length (py_split line) < 2"
  shows "scan_lines hosts lines = Inl IndexError"
  using assms(1)
proof (induction lines arbitrary: hosts)
  case Nil
  then show ?case by simp
next
  case (Cons l rest)
  show ?case
  proof (cases "scan_line hosts l")
    case (Inl e)
    then show ?thesis using scan_line_error [OF Inl] by simp
  next
    case (Inr hosts')
    with scan_line_short [OF assms(2,3), of hosts] have "l \<noteq> line" by auto
    with Cons.prems have "line \<in> set rest" by simp
    then show ?thesis using Cons.IH Inr by simp
  qed
qed

lemma scan_lines_finite: "scan_lines hosts lines = Inr hosts' \<Longrightarrow> finite hosts \<Longrightarrow> finite hosts'"
proof (induction lines arbitrary: hosts)
  case Nil
  then show ?case by simp
next
  case (Cons line rest)
  from Cons.prems(1) obtain mid where mid: "scan_line hosts line = Inr mid"
    and rest: "scan_lines mid rest = Inr hosts'"
    by (auto split: sum.splits)
  from mid Cons.prems(2) have "finite mid"
    by (auto simp: scan_line_def split: if_splits list.splits)
  with rest show ?case by (rule Cons.IH)
qed

text \<open>
  Claim C6. A line that does not start with \<^verbatim>\<open>Host:\<close> leaves the host set as it is. A
  line that starts with \<^verbatim>\<open>Host:\<close> and has at least two tokens adds its second token when the
  raw line contains both \<^verbatim>\<open>Ports:\<close> and \<^verbatim>\<open>open\<close>, and adds nothing otherwise; in
  particular it adds nothing when \<^verbatim>\<open>open\<close> does not occur in it. Over a whole file whose
  \<^verbatim>\<open>Host:\<close> lines all have two tokens, the set collected is exactly the set of second
  tokens of the lines that start with \<^verbatim>\<open>Host:\<close> and contain \<^verbatim>\<open>Ports:\<close> and \<^verbatim>\<open>open\<close>.
\<close>

theorem scan_lines_reachable_hosts:
  "(\<not> startswith line ''Host:'' \<longrightarrow> scan_line hosts line = Inr hosts) \<and>
   (startswith line ''Host:'' \<and> 2 \<le> length (py_split line) \<longrightarrow>
      scan_line hosts line =
        Inr (if py_in ''Ports:'' line \<and> py_in ''open'' line
             then insert (py_split line ! 1) hosts else hosts)) \<and>
   (startswith line ''Host:'' \<and> 2 \<le> length (py_split line) \<and> \<not> py_in ''open'' line \<longrightarrow>
      scan_line hosts line = Inr hosts) \<and>
   ((\<forall>l \<in> set lines. startswith l ''Host:'' \<longrightarrow> 2 \<le> length (py_split l)) \<longrightarrow>
      scan_lines {} lines =
        Inr {ip. \<exists>l \<in> set lines. startswith l ''Host:'' \<and> py_in ''Ports:'' l \<and>
                  py_in ''open'' l \<and> ip = py_split l ! 1})"
  using scan_lines_ok [of lines "{}"]
  by (simp add: scan_line_not_host scan_line_host)

lemma sample_open_5:
  "startswith (sample_open ''10.0.0.5'') ''Host:''"
  "py_split (sample_open ''10.0.0.5'') =
     [''Host:'', ''10.0.0.5'', ''()'', ''Ports:'', ''80/open/tcp//http///'']"
  "py_in ''Ports:'' (sample_open ''10.0.0.5'')"
  "py_in ''open'' (sample_open ''10.0.0.5'')"
  by (simp_all add: sample_open_def NL_def py_split_def py_isspace_def)

lemma sample_closed_7:
  "startswith (sample_closed ''10.0.0.7'') ''Host:''"
  "py_split (sample_closed ''10.0.0.7'') =
     [''Host:'', ''10.0.0.7'', ''()'', ''Ports:'', ''80/closed/tcp//http///'']"
  "\<not> py_in ''open'' (sample_closed ''10.0.0.7'')"
  by (simp_all add: sample_closed_def NL_def py_split_def py_isspace_def)

theorem scan_lines_reachable_hosts_witness:
  "scan_line {} sample_comment = Inr {} \<and>
   scan_line {} (sample_open ''10.0.0.5'') = Inr {''10.0.0.5''} \<and>
   scan_line {} (sample_closed ''10.0.0.7'') = Inr {} \<and>
   scan_lines {} [sample_comment, sample_open ''10.0.0.5'', sample_closed ''10.0.0.7''] =
     Inr {''10.0.0.5''}"
proof -
  let ?a = "sample_comment"
  let ?b = "sample_open ''10.0.0.5''"
  let ?c = "sample_closed ''10.0.0.7''"
  have a: "\<not> startswith ?a ''Host:''" by (simp add: sample_comment_def)
  note b = sample_open_5
  note c = sample_closed_7
  have all: "\<forall>l \<in> set [?a, ?b, ?c]. startswith l ''Host:'' \<longrightarrow> 2 \<le> length (py_split l)"
    using a b c by simp
  have set_eq: "{ip. \<exists>l \<in> set [?a, ?b, ?c]. startswith l ''Host:'' \<and> py_in ''Ports:'' l \<and>
                  py_in ''open'' l \<and> ip = py_split l ! 1} = {''10.0.0.5''}"
    using a b c by auto
  from scan_lines_reachable_hosts [of ?a "{}" "[?a, ?b, ?c]"] a
  have "scan_line {} ?a = Inr {}" by blast
  moreover from scan_lines_reachable_hosts [of ?b "{}" "[?a, ?b, ?c]"] b
  have "scan_line {} ?b = Inr {''10.0.0.5''}" by simp
  moreover from scan_lines_reachable_hosts [of ?c "{}" "[?a, ?b, ?c]"] c
  have "scan_line {} ?c = Inr {}" by simp
  moreover from scan_lines_reachable_hosts [of ?c "{}" "[?a, ?b, ?c]"] all
  have "scan_lines {} [?a, ?b, ?c] = Inr {''10.0.0.5''}" unfolding set_eq by blast
  ultimately show ?thesis by blast
qed

subsection \<open>Loader invariants\<close>

lemma load_file_error: "load_file tables gf = Inl e \<Longrightarrow> e = IndexError"
  by (auto simp: load_file_def Let_def split: prod.splits sum.splits dest: scan_lines_error)

lemma load_files_error: "load_files tables files = Inl e \<Longrightarrow> e = IndexError"
proof (induction files arbitrary: tables)
  case Nil
  then show ?case by simp
next
  case (Cons gf files)
  then show ?case by (auto split: sum.splits dest: load_file_error)
qed

lemma load_file_Inr:
  assumes "load_file (st, sh) (fname, lines) = Inr (st', sh')"
  shows "\<exists>hosts. scan_lines {} lines = Inr hosts \<and>
           st' = AList.update (snd (parse_segment fname)) (fst (parse_segment fname)) st \<and>
           sh' = AList.update (snd (parse_segment fname)) hosts sh"
  using assms by (auto simp: load_file_def Let_def split: prod.splits sum.splits)

lemma values_update:
  "set (map snd (AList.update k v al)) \<subseteq> insert v (set (map snd al))"
  by (induction al) auto

lemma load_file_ok:
  assumes "load_file tables gf = Inr tables'" and "tables_ok tables"
  shows "tables_ok tables'"
proof -
  obtain st sh where t: "tables = (st, sh)" by (cases tables)
  obtain fname lines where f: "gf = (fname, lines)" by (cases gf)
  obtain st' sh' where t': "tables' = (st', sh')" by (cases tables')
  from load_file_Inr [of st sh fname lines st' sh'] assms(1) t f t'
  obtain hosts where h: "scan_lines {} lines = Inr hosts"
    and st': "st' = AList.update (snd (parse_segment fname)) (fst (parse_segment fname)) st"
    and sh': "sh' = AList.update (snd (parse_segment fname)) hosts sh"
    by auto
  from h have fin: "finite hosts" by (rule scan_lines_finite) simp
  from assms(2) t have keys: "map fst st = map fst sh" and dist: "distinct (map fst sh)"
    and fins: "\<forall>hosts \<in> set (map snd sh). finite hosts"
    by (simp_all add: tables_ok_def)
  have "map fst st' = map fst sh'"
    using keys by (simp add: st' sh' update_keys)
  moreover have "distinct (map fst sh')"
    using dist by (simp add: sh' distinct_update)
  moreover have "\<forall>hosts \<in> set (map snd sh'). finite hosts"
    using fins fin values_update [of "snd (parse_segment fname)" hosts sh] unfolding sh' by blast
  ultimately show ?thesis by (simp add: tables_ok_def t')
qed

lemma load_files_ok:
  "load_files tables files = Inr tables' \<Longrightarrow> tables_ok tables \<Longrightarrow> tables_ok tables'"
proof (induction files arbitrary: tables)
  case Nil
  then show ?case by simp
next
  case (Cons gf files)
  from Cons.prems(1) obtain mid where mid: "load_file tables gf = Inr mid"
    and rest: "load_files mid files = Inr tables'"
    by (auto split: sum.splits)
  from load_file_ok [OF mid Cons.prems(2)] rest show ?case by (rule Cons.IH [rotated])
qed

lemma load_ok: "load files = Inr tables \<Longrightarrow> tables_ok tables"
  unfolding load_def by (erule load_files_ok) (simp add: tables_ok_def)

lemma load_keys: "load files = Inr (st, sh) \<Longrightarrow> map fst st = map fst sh"
  using load_ok [of files "(st, sh)"] by (simp add: tables_ok_def)

lemma load_distinct: "load files = Inr (st, sh) \<Longrightarrow> distinct (map fst sh)"
  using load_ok [of files "(st, sh)"] by (simp add: tables_ok_def)

lemma load_finite: "load files = Inr (st, sh) \<Longrightarrow> finite (union_hosts sh)"
proof -
  assume "load files = Inr (st, sh)"
  then have fin: "\<forall>hosts \<in> set (map snd sh). finite hosts"
    using load_ok [of files "(st, sh)"] by (simp add: tables_ok_def)
  have "\<And>acc. finite acc \<Longrightarrow> \<forall>hosts \<in> set xs. finite hosts \<Longrightarrow>
          finite (fold (\<lambda>hosts all. all \<union> hosts) xs acc)" for xs :: "string set list"
    by (induction xs) auto
  from this [of "{}" "map snd sh"] fin show ?thesis by (simp add: union_hosts_def)
qed

subsection \<open>Duplicate segment names\<close>

lemma load_files_append:
  "load_files tables (xs @ ys) =
     (case load_files tables xs of Inl e \<Rightarrow> Inl e | Inr mid \<Rightarrow> load_files mid ys)"
  by (induction xs arbitrary: tables) (auto split: sum.splits)

lemma load_files_other_names:
  assumes "load_files (st, sh) files = Inr (st', sh')"
    and "\<forall>gf \<in> set files. snd (parse_segment (fst gf)) \<noteq> k"
  shows "map_of st' k = map_of st k \<and> map_of sh' k = map_of sh k"
  using assms
proof (induction files arbitrary: st sh)
  case Nil
  then show ?case by simp
next
  case (Cons gf files)
  obtain fname lines where gf: "gf = (fname, lines)" by (cases gf)
  from Cons.prems(1) obtain mid where mid: "load_file (st, sh) gf = Inr mid"
    and rest: "load_files mid files = Inr (st', sh')"
    by (auto split: sum.splits)
  obtain st1 sh1 where m: "mid = (st1, sh1)" by (cases mid)
  from load_file_Inr [of st sh fname lines st1 sh1] mid gf m
  obtain hosts where
        st1: "st1 = AList.update (snd (parse_segment fname)) (fst (parse_segment fname)) st"
    and sh1: "sh1 = AList.update (snd (parse_segment fname)) hosts sh"
    by auto
  from Cons.prems(2) gf have ne: "snd (parse_segment fname) \<noteq> k" by simp
  have "map_of st1 k = map_of st k \<and> map_of sh1 k = map_of sh k"
    using ne by (simp add: st1 sh1 update_conv')
  moreover have "map_of st' k = map_of st1 k \<and> map_of sh' k = map_of sh1 k"
    using Cons.IH [of st1 sh1] rest m Cons.prems(2) by simp
  ultimately show ?case by simp
qed

text \<open>
  Claim C2, as amended. When a file is loaded and no later file derives the same segment
  name, the type table and the host-set table both hold that file's entry under the name:
  its type and the hosts collected from its lines. Both tables have each name once, so
  whatever an earlier file of the same name stored is gone from both of them.
\<close>

theorem later_file_overwrites_both_tables:
  assumes "load (earlier @ (fname, lines) # later) = Inr (st, sh)"
    and "\<forall>gf \<in> set later. snd (parse_segment (fst gf)) \<noteq> snd (parse_segment fname)"
  shows "map_of st (snd (parse_segment fname)) = Some (fst (parse_segment fname)) \<and>
         (\<exists>hosts. scan_lines {} lines = Inr hosts \<and>
                  map_of sh (snd (parse_segment fname)) = Some hosts) \<and>
         distinct (map fst st) \<and> distinct (map fst sh)"
proof -
  let ?k = "snd (parse_segment fname)"
  from assms(1) obtain t0 where t0: "load_files ([], []) earlier = Inr t0"
    and r0: "load_files t0 ((fname, lines) # later) = Inr (st, sh)"
    by (auto simp: load_def load_files_append split: sum.splits)
  obtain st0 sh0 where t0': "t0 = (st0, sh0)" by (cases t0)
  from r0 obtain t1 where t1: "load_file t0 (fname, lines) = Inr t1"
    and r1: "load_files t1 later = Inr (st, sh)"
    by (auto split: sum.splits)
  obtain st1 sh1 where t1': "t1 = (st1, sh1)" by (cases t1)
  from load_file_Inr [of st0 sh0 fname lines st1 sh1] t1 t0' t1'
  obtain hosts where h: "scan_lines {} lines = Inr hosts"
    and st1: "st1 = AList.update ?k (fst (parse_segment fname)) st0"
    and sh1: "sh1 = AList.update ?k hosts sh0"
    by auto
  have "map_of st1 ?k = Some (fst (parse_segment fname))" "map_of sh1 ?k = Some hosts"
    by (simp_all add: st1 sh1 update_conv')
  moreover have "map_of st ?k = map_of st1 ?k \<and> map_of sh ?k = map_of sh1 ?k"
    using load_files_other_names [of st1 sh1 later st sh ?k] r1 t1' assms(2) by simp
  moreover have "distinct (map fst st)" "distinct (map fst sh)"
    using load_distinct [OF assms(1)] load_keys [OF assms(1)] by simp_all
  ultimately show ?thesis using h by simp
qed

lemma parse_PCI_A: "parse_segment ''PCI - A.gnmap'' = (Pci, ''A'')"
  by (simp add: parse_segment_def splitext_root_def py_rfind_def py_lower_def py_lower_char_def
      py_strip_def py_isspace_def)

lemma parse_NON_PCI_A: "parse_segment ''NON PCI - A.gnmap'' = (NonPci, ''A'')"
  by (simp add: parse_segment_def splitext_root_def py_rfind_def py_lower_def py_lower_char_def
      py_strip_def py_isspace_def)

lemma scan_sample_open_1: "scan_lines {} [sample_open ''10.0.0.1''] = Inr {''10.0.0.1''}"
  by (simp add: scan_line_def sample_open_def NL_def py_split_def py_isspace_def)

lemma scan_sample_open_2: "scan_lines {} [sample_open ''10.0.0.2''] = Inr {''10.0.0.2''}"
  by (simp add: scan_line_def sample_open_def NL_def py_split_def py_isspace_def)

lemma load_same_name:
  "load [(''PCI - A.gnmap'', [sample_open ''10.0.0.1'']),
         (''NON PCI - A.gnmap'', [sample_open ''10.0.0.2''])] =
     Inr ([(''A'', NonPci)], [(''A'', {''10.0.0.2''})])"
  by (simp add: load_def load_file_def parse_PCI_A parse_NON_PCI_A
      scan_sample_open_1 scan_sample_open_2 del: scan_lines.simps)

text \<open>Two files that both derive the name \<^verbatim>\<open>A\<close>: after the load the host set under
  \<^verbatim>\<open>A\<close> is the one of the second file, and the host of the first file is not in it.\<close>

theorem earlier_host_set_is_overwritten:
  "load [(''PCI - A.gnmap'', [sample_open ''10.0.0.1'']),
         (''NON PCI - A.gnmap'', [sample_open ''10.0.0.2''])] =
     Inr ([(''A'', NonPci)], [(''A'', {''10.0.0.2''})]) \<and>
   \<not> reaches [(''A'', {''10.0.0.2''})] ''A'' ''10.0.0.1''"
  by (simp add: load_same_name reaches_def)

theorem later_file_overwrites_both_tables_witness:
  "load ([(''PCI - A.gnmap'', [sample_open ''10.0.0.1''])] @
         (''NON PCI - A.gnmap'', [sample_open ''10.0.0.2'']) # []) =
     Inr ([(''A'', NonPci)], [(''A'', {''10.0.0.2''})]) \<and>
   map_of [(''A'', NonPci)] ''A'' = Some NonPci \<and>
   scan_lines {} [sample_open ''10.0.0.2''] = Inr {''10.0.0.2''} \<and>
   map_of [(''A'', {''10.0.0.2''})] ''A'' = Some {''10.0.0.2''} \<and>
   distinct (map fst [(''A'', NonPci)]) \<and>
   distinct (map fst [(''A'', {''10.0.0.2''})])"
proof -
  have l: "load ([(''PCI - A.gnmap'', [sample_open ''10.0.0.1''])] @
             (''NON PCI - A.gnmap'', [sample_open ''10.0.0.2'']) # []) =
           Inr ([(''A'', NonPci)], [(''A'', {''10.0.0.2''})])"
    using load_same_name by simp
  have n: "\<forall>gf \<in> set []. snd (parse_segment (fst gf)) \<noteq> snd (parse_segment ''NON PCI - A.gnmap'')"
    by simp
  from later_file_overwrites_both_tables [OF l n] l show ?thesis
    by (simp add: parse_NON_PCI_A scan_sample_open_2 del: scan_lines.simps)
qed

subsection \<open>Malformed host lines\<close>

lemma load_files_short:
  assumes "(fname, lines) \<in> set files" and "line \<in> set lines"
    and "startswith line ''Host:''" and "length (py_split line) < 2"
  shows "load_files tables files = Inl IndexError"
  using assms(1)
proof (induction files arbitrary: tables)
  case Nil
  then show ?case by simp
next
  case (Cons gf files)
  show ?case
  proof (cases "load_file tables gf")
    case (Inl e)
    then show ?thesis using load_file_error [OF Inl] by simp
  next
    case (Inr mid)
    have "load_file tables (fname, lines) = Inl IndexError"
      using scan_lines_short [OF assms(2,3,4), of "{}"]
      by (simp add: load_file_def Let_def split: prod.splits)
    with Inr have "gf \<noteq> (fname, lines)" by auto
    with Cons.prems have "(fname, lines) \<in> set files" by simp
    then show ?thesis using Cons.IH Inr by simp
  qed
qed

text \<open>
  Claim C9. When some input file has a line that starts with \<^verbatim>\<open>Host:\<close> and has fewer than
  two whitespace-separated tokens, the run ends with the uncaught \<^verbatim>\<open>IndexError\<close> of
  \<^verbatim>\<open>parts[1]\<close>, whatever the other lines and files hold.
\<close>

theorem short_host_line_aborts_run:
  assumes "(fname, lines) \<in> set files" and "line \<in> set lines"
    and "startswith line ''Host:''" and "length (py_split line) < 2"
  shows "run enum files = Inl IndexError"
  using load_files_short [OF assms, of "([], [])"] by (simp add: run_def load_def)

lemma short_line: "startswith (''Host:'' @ NL) ''Host:''" "length (py_split (''Host:'' @ NL)) < 2"
  by (simp_all add: NL_def py_split_def py_isspace_def)

theorem short_host_line_aborts_run_witness:
  "run sorted_list_of_set
     [(''PCI - DMZ.gnmap'', [sample_open ''10.0.0.5'']),
      (''Other.gnmap'', [sample_comment, ''Host:'' @ NL, sample_open ''10.0.0.5''])] =
   Inl IndexError"
proof -
  let ?bad = "(''Other.gnmap'', [sample_comment, ''Host:'' @ NL, sample_open ''10.0.0.5''])"
  have a: "?bad \<in> set [(''PCI - DMZ.gnmap'', [sample_open ''10.0.0.5'']), ?bad]" by simp
  have b: "''Host:'' @ NL \<in> set [sample_comment, ''Host:'' @ NL, sample_open ''10.0.0.5'']" by simp
  show ?thesis by (rule short_host_line_aborts_run [OF a b short_line])
qed

subsection \<open>Aggregation\<close>

lemma fold_union: "fold (\<lambda>hosts all. all \<union> hosts) xs acc = acc \<union> \<Union> (set xs)"
  by (induction xs arbitrary: acc) auto

lemma union_hosts_Union: "union_hosts sh = \<Union> (set (map snd sh))"
  by (simp add: union_hosts_def fold_union)

lemma valid_enum_sorted_list_of_set: "valid_enum sorted_list_of_set"
  by (simp add: valid_enum_def)

lemma valid_enum_rev: "valid_enum (\<lambda>S. rev (sorted_list_of_set S))"
  by (simp add: valid_enum_def)

lemma sort_enum:
  assumes "valid_enum enum" and "finite S"
  shows "sort (enum S) = sorted_list_of_set S"
proof -
  from assms have s: "set (enum S) = S" and d: "distinct (enum S)"
    by (simp_all add: valid_enum_def)
  have "sorted_list_of_set (set (enum S)) = sort (remdups (enum S))"
    by (rule sorted_list_of_set_sort_remdups)
  with s d show ?thesis by (simp add: distinct_remdups_id)
qed

lemma all_hosts_sorted_list:
  assumes "valid_enum enum" and "load files = Inr (st, sh)"
  shows "all_hosts enum sh = sorted_list_of_set (union_hosts sh)"
  unfolding all_hosts_def by (rule sort_enum [OF assms(1) load_finite [OF assms(2)]])

lemma all_hosts_empty:
  assumes "valid_enum enum"
  shows "all_hosts enum [] = []"
  using sort_enum [OF assms, of "{}"] by (simp add: all_hosts_def union_hosts_def)

text \<open>
  Claim C3, on the code. With no input file the host list is empty, and the run ends with
  the \<^verbatim>\<open>ValueError\<close> that \<^verbatim>\<open>max\<close> raises on an empty sequence when the host column width
  is computed: nothing is printed and no HTML file is written.
\<close>

theorem no_files_raises_ValueError:
  assumes "valid_enum enum"
  shows "run enum [] = Inl ValueError"
  using all_hosts_empty [OF assms]
  by (simp add: run_def load_def col_widths_def py_max_def)

theorem no_files_raises_ValueError_witness:
  "run sorted_list_of_set [] = Inl ValueError"
  by (rule no_files_raises_ValueError [OF valid_enum_sorted_list_of_set])

subsection \<open>The sample run\<close>

lemma parse_samples:
  "parse_segment ''PCI - DMZ.gnmap'' = (Pci, ''DMZ'')"
  "parse_segment ''NON PCI - Corp.gnmap'' = (NonPci, ''Corp'')"
  "parse_segment ''Other.gnmap'' = (Unknown, ''Other'')"
  by (simp_all add: parse_segment_def splitext_root_def py_rfind_def py_lower_def
      py_lower_char_def py_strip_def py_isspace_def)

lemma scan_line_samples:
  "scan_line hosts sample_comment = Inr hosts"
  "scan_line hosts (sample_open ''10.0.0.5'') = Inr (insert ''10.0.0.5'' hosts)"
  "scan_line hosts (sample_open ''10.0.0.9'') = Inr (insert ''10.0.0.9'' hosts)"
  "scan_line hosts (sample_closed ''10.0.0.7'') = Inr hosts"
  by (simp_all add: scan_line_def sample_comment_def sample_open_def sample_closed_def NL_def
      py_split_def py_isspace_def)

lemma load_sample: "load sample_files = Inr (sample_types, sample_hosts)"
  by (simp add: load_def sample_files_def sample_types_def sample_hosts_def load_file_def
      parse_samples scan_line_samples insert_commute)

subsection \<open>Column order\<close>

lemma pci_segments_filter: "pci_segments st = map fst (filter (\<lambda>p. snd p = Pci) st)"
  unfolding pci_segments_def by (induction st) auto

lemma non_pci_segments_filter: "non_pci_segments st = map fst (filter (\<lambda>p. snd p = NonPci) st)"
  unfolding non_pci_segments_def by (induction st) auto

lemma not_pci_nor_non_pci: "(t \<noteq> Pci \<and> t \<noteq> NonPci) = (t = Unknown)"
  by (cases t) simp_all

lemma unknown_segments_filter:
  "unknown_segments st = map fst (filter (\<lambda>p. snd p = Unknown) st)"
  unfolding unknown_segments_def by (induction st) (auto simp: not_pci_nor_non_pci)

lemma rank_of_listed:
  assumes "distinct (map fst st)" and "seg \<in> set (map fst (filter (\<lambda>p. snd p = t) st))"
  shows "column_rank st seg = type_rank t"
proof -
  from assms(2) have "(seg, t) \<in> set st" by auto
  with assms(1) have "map_of st seg = Some t" by simp
  then show ?thesis by (simp add: column_rank_def)
qed

lemma ordered_segments_sorted:
  assumes "distinct (map fst st)"
  shows "sorted (map (column_rank st) (ordered_segments st))"
proof -
  have p: "\<forall>seg \<in> set (pci_segments st). column_rank st seg = 0"
    using rank_of_listed [OF assms, of _ Pci] by (simp add: pci_segments_filter)
  have n: "\<forall>seg \<in> set (non_pci_segments st). column_rank st seg = 1"
    using rank_of_listed [OF assms, of _ NonPci] by (simp add: non_pci_segments_filter)
  have u: "\<forall>seg \<in> set (unknown_segments st). column_rank st seg = 2"
    using rank_of_listed [OF assms, of _ Unknown] by (simp add: unknown_segments_filter)
  have const: "sorted (map f xs)" if "\<forall>x \<in> set xs. f x = c" for f :: "string \<Rightarrow> nat" and xs c
    using that by (induction xs) auto
  show ?thesis
    unfolding ordered_segments_def map_append sorted_append
    using p n u const [OF p] const [OF n] const [OF u] by auto
qed

lemma ordered_segments_set: "set (ordered_segments st) = set (map fst st)"
proof -
  have "t = Pci \<or> t = NonPci \<or> t = Unknown" for t by (cases t) simp_all
  then show ?thesis
    unfolding ordered_segments_def pci_segments_filter non_pci_segments_filter
      unknown_segments_filter
    by (auto simp: image_iff)
qed

lemma ordered_segments_distinct:
  assumes "distinct (map fst st)"
  shows "distinct (ordered_segments st)"
proof -
  have d: "distinct (map fst (filter P st))" for P
    using assms by (rule distinct_map_filter)
  have uniq: "a = b" if "(seg, a) \<in> set st" and "(seg, b) \<in> set st" for seg a b
    using that assms by (metis map_of_is_SomeI option.inject)
  have disj: "set (map fst (filter (\<lambda>p. snd p = a) st)) \<inter>
              set (map fst (filter (\<lambda>p. snd p = b) st)) = {}" if "a \<noteq> b" for a b
    using that uniq by fastforce
  show ?thesis
    unfolding ordered_segments_def pci_segments_filter non_pci_segments_filter
      unknown_segments_filter
    using d disj [of Pci NonPci] disj [of Pci Unknown] disj [of NonPci Unknown]
    by (simp add: Int_Un_distrib)
qed

lemma ordered_sample: "ordered_segments sample_types = [''DMZ'', ''Corp'', ''Other'']"
  by (simp add: ordered_segments_def pci_segments_def non_pci_segments_def unknown_segments_def
      sample_types_def)

subsection \<open>Tier of a host\<close>

lemma segments_reaching_filter:
  "segments_reaching sh h = filter (\<lambda>seg. reaches sh seg h) (map fst sh)"
  by (simp add: segments_reaching_def reaches_def)

lemma reaches_key: "reaches sh seg h \<Longrightarrow> seg \<in> set (map fst sh)"
  by (auto simp: reaches_def split: option.splits dest!: map_of_SomeD intro: rev_image_eqI)

lemma segments_reaching_set: "set (segments_reaching sh h) = {seg. reaches sh seg h}"
  using reaches_key [of sh _ h] by (auto simp: segments_reaching_filter)

lemma segments_reaching_length:
  assumes "distinct (map fst sh)"
  shows "length (segments_reaching sh h) = card {seg. reaches sh seg h}"
proof -
  have "distinct (segments_reaching sh h)"
    using assms by (simp add: segments_reaching_filter)
  then have "card (set (segments_reaching sh h)) = length (segments_reaching sh h)"
    by (rule distinct_card)
  then show ?thesis by (simp add: segments_reaching_set)
qed

lemma has_type_iff:
  "has_type st t (segments_reaching sh h) \<longleftrightarrow> (\<exists>seg. reaches sh seg h \<and> map_of st seg = Some t)"
  using segments_reaching_set [of sh h] by (auto simp: has_type_def list_ex_iff)

lemma union_hosts_reaches:
  assumes "distinct (map fst sh)"
  shows "h \<in> union_hosts sh \<longleftrightarrow> (\<exists>seg. reaches sh seg h)"
proof
  assume "h \<in> union_hosts sh"
  then obtain seg hosts where "(seg, hosts) \<in> set sh" and "h \<in> hosts"
    by (auto simp: union_hosts_Union)
  with assms have "reaches sh seg h" by (simp add: reaches_def)
  then show "\<exists>seg. reaches sh seg h" ..
next
  assume "\<exists>seg. reaches sh seg h"
  then obtain seg hosts where "map_of sh seg = Some hosts" and "h \<in> hosts"
    by (auto simp: reaches_def split: option.splits)
  then show "h \<in> union_hosts sh"
    by (auto simp: union_hosts_Union dest!: map_of_SomeD intro!: bexI [of _ "(seg, hosts)"])
qed

text \<open>
  Claim C1. After a load, for every host of the aggregated host list: its tier is
  \<open>Critical\<close> when some segment of type \<open>Pci\<close> and some segment of type \<open>NonPci\<close> reach
  it, whatever the number of segments reaching it; otherwise \<open>Elevated\<close> when more than one
  segment reaches it; otherwise \<open>Normal\<close>. At least one segment reaches it.
\<close>

theorem tier_rule:
  assumes "load files = Inr (st, sh)" and "valid_enum enum" and "h \<in> set (all_hosts enum sh)"
  shows "tier_of st sh h =
           (if (\<exists>seg. reaches sh seg h \<and> map_of st seg = Some Pci) \<and>
               (\<exists>seg. reaches sh seg h \<and> map_of st seg = Some NonPci) then Critical
            else if 1 < card {seg. reaches sh seg h} then Elevated
            else Normal) \<and>
         1 \<le> card {seg. reaches sh seg h}"
proof -
  note d = load_distinct [OF assms(1)]
  have tier: "tier_of st sh h =
           (if (\<exists>seg. reaches sh seg h \<and> map_of st seg = Some Pci) \<and>
               (\<exists>seg. reaches sh seg h \<and> map_of st seg = Some NonPci) then Critical
            else if 1 < card {seg. reaches sh seg h} then Elevated
            else Normal)"
    by (simp add: tier_of_def Let_def has_type_iff segments_reaching_length [OF d])
  from assms(3) have "h \<in> union_hosts sh"
    using all_hosts_sorted_list [OF assms(2,1)] load_finite [OF assms(1)] by simp
  then have "segments_reaching sh h \<noteq> []"
    using union_hosts_reaches [OF d, of h] segments_reaching_set [of sh h] by auto
  then have "1 \<le> length (segments_reaching sh h)"
    by (cases "segments_reaching sh h") simp_all
  with tier show ?thesis by (simp add: segments_reaching_length [OF d])
qed

lemma all_hosts_sample: "all_hosts sorted_list_of_set sample_hosts = [''10.0.0.5'', ''10.0.0.9'']"
proof -
  have "union_hosts sample_hosts = {''10.0.0.5'', ''10.0.0.9''}"
    by (auto simp: union_hosts_Union sample_hosts_def)
  then show ?thesis
    using all_hosts_sorted_list [OF valid_enum_sorted_list_of_set load_sample] by simp
qed

theorem tier_rule_witness:
  "tier_of sample_types sample_hosts ''10.0.0.5'' = Critical \<and>
   tier_of sample_types sample_hosts ''10.0.0.9'' = Elevated \<and>
   1 \<le> card {seg. reaches sample_hosts seg ''10.0.0.5''}"
proof -
  have h5: "''10.0.0.5'' \<in> set (all_hosts sorted_list_of_set sample_hosts)"
    and h9: "''10.0.0.9'' \<in> set (all_hosts sorted_list_of_set sample_hosts)"
    by (simp_all add: all_hosts_sample)
  have r5: "{seg. reaches sample_hosts seg ''10.0.0.5''} = {''DMZ'', ''Corp''}"
    and r9: "{seg. reaches sample_hosts seg ''10.0.0.9''} = {''Corp'', ''Other''}"
    by (auto simp: reaches_def sample_hosts_def split: if_splits)
  have p5: "\<exists>seg. reaches sample_hosts seg ''10.0.0.5'' \<and> map_of sample_types seg = Some Pci"
    by (rule exI [of _ "''DMZ''"]) (simp add: reaches_def sample_hosts_def sample_types_def)
  have n5: "\<exists>seg. reaches sample_hosts seg ''10.0.0.5'' \<and> map_of sample_types seg = Some NonPci"
    by (rule exI [of _ "''Corp''"]) (simp add: reaches_def sample_hosts_def sample_types_def)
  have p9: "\<not> (\<exists>seg. reaches sample_hosts seg ''10.0.0.9'' \<and> map_of sample_types seg = Some Pci)"
  proof
    assume "\<exists>seg. reaches sample_hosts seg ''10.0.0.9'' \<and> map_of sample_types seg = Some Pci"
    then obtain seg where "seg \<in> {seg. reaches sample_hosts seg ''10.0.0.9''}"
      and "map_of sample_types seg = Some Pci" by blast
    then show False unfolding r9 by (auto simp: sample_types_def)
  qed
  from tier_rule [OF load_sample valid_enum_sorted_list_of_set h5] p5 n5
  have "tier_of sample_types sample_hosts ''10.0.0.5'' = Critical \<and>
        1 \<le> card {seg. reaches sample_hosts seg ''10.0.0.5''}"
    by simp
  moreover from tier_rule [OF load_sample valid_enum_sorted_list_of_set h9] p9
  have "tier_of sample_types sample_hosts ''10.0.0.9'' = Elevated"
    by (simp add: r9)
  ultimately show ?thesis by simp
qed

subsection \<open>Cells of the two matrices\<close>

lemma strip_ansi_from_numeral [simp]:
  "strip_ansi_from (numeral n) (c # cs) = strip_ansi_from (pred_numeral n) cs"
  by (simp add: numeral_eq_Suc)

lemma strip_ansi_from_one [simp]: "strip_ansi_from 1 (c # cs) = strip_ansi_from 0 cs"
  by (metis One_nat_def strip_ansi_from.simps(2))

lemma text_marked_cells:
  "text_marked (RED @ ''X'' @ RESET)" "text_marked (YELLOW @ ''X'' @ RESET)"
  "text_marked (GREEN @ ''X'' @ RESET)" "\<not> text_marked ''-''"
  by (simp_all add: text_marked_def strip_ansi_def ansi_len_def RED_def YELLOW_def GREEN_def
      RESET_def)

lemma html_marked_cells:
  "html_marked (''<td style='background:'' @ ''#ffcccc'' @ '';text-align:center;'>X</td>'')"
  "html_marked (''<td style='background:'' @ ''#ffff99'' @ '';text-align:center;'>X</td>'')"
  "html_marked (''<td style='background:'' @ ''#ccffcc'' @ '';text-align:center;'>X</td>'')"
  "\<not> html_marked ''<td style='text-align:center;'>-</td>''"
  by (simp_all add: html_marked_def)

lemma key_lookup: "seg \<in> set (map fst sh) \<Longrightarrow> \<exists>hosts. map_of sh seg = Some hosts"
  by (cases "map_of sh seg") (auto simp: map_of_eq_None_iff)

lemma text_cell_key:
  assumes "seg \<in> set (map fst sh)"
  shows "text_cell st sh h seg =
     Inr (if reaches sh seg h
          then (case tier_of st sh h of
                  Critical \<Rightarrow> RED @ ''X'' @ RESET
                | Elevated \<Rightarrow> YELLOW @ ''X'' @ RESET
                | Normal \<Rightarrow> GREEN @ ''X'' @ RESET)
          else ''-'')"
  using key_lookup [OF assms] by (auto simp: text_cell_def reaches_def)

lemma html_cell_key:
  assumes "seg \<in> set (map fst sh)"
  shows "html_cell st sh h seg =
     Inr (if reaches sh seg h
          then ''<td style='background:'' @
               (case tier_of st sh h of
                  Critical \<Rightarrow> ''#ffcccc''
                | Elevated \<Rightarrow> ''#ffff99''
                | Normal \<Rightarrow> ''#ccffcc'') @ '';text-align:center;'>X</td>''
          else ''<td style='text-align:center;'>-</td>'')"
  using key_lookup [OF assms] by (auto simp: html_cell_def reaches_def Let_def)

lemma text_cell_marked:
  assumes "seg \<in> set (map fst sh)" and "text_cell st sh h seg = Inr cell"
  shows "text_marked cell = reaches sh seg h"
proof -
  from assms(2) have cell: "cell =
     (if reaches sh seg h
      then (case tier_of st sh h of
              Critical \<Rightarrow> RED @ ''X'' @ RESET
            | Elevated \<Rightarrow> YELLOW @ ''X'' @ RESET
            | Normal \<Rightarrow> GREEN @ ''X'' @ RESET)
      else ''-'')"
    unfolding text_cell_key [OF assms(1)] by simp
  show ?thesis
  proof (cases "reaches sh seg h")
    case True
    then show ?thesis using cell text_marked_cells by (cases "tier_of st sh h") simp_all
  next
    case False
    then show ?thesis using cell text_marked_cells by simp
  qed
qed

lemma html_cell_marked:
  assumes "seg \<in> set (map fst sh)" and "html_cell st sh h seg = Inr cell"
  shows "html_marked cell = reaches sh seg h"
proof -
  from assms(2) have cell: "cell =
     (if reaches sh seg h
      then ''<td style='background:'' @
           (case tier_of st sh h of
              Critical \<Rightarrow> ''#ffcccc''
            | Elevated \<Rightarrow> ''#ffff99''
            | Normal \<Rightarrow> ''#ccffcc'') @ '';text-align:center;'>X</td>''
      else ''<td style='text-align:center;'>-</td>'')"
    unfolding html_cell_key [OF assms(1)] by simp
  show ?thesis
  proof (cases "reaches sh seg h")
    case True
    then show ?thesis using cell html_marked_cells by (cases "tier_of st sh h") simp_all
  next
    case False
    then show ?thesis using cell html_marked_cells by simp
  qed
qed

lemma collect_marked:
  assumes "\<forall>x \<in> set xs. \<exists>y. f x = Inr y \<and> m y = p x"
  shows "\<exists>ys. collect f xs = Inr ys \<and> map m ys = map p xs"
  using assms
proof (induction xs)
  case Nil
  then show ?case by simp
next
  case (Cons x xs)
  then obtain y ys where "f x = Inr y" "m y = p x" "collect f xs = Inr ys" "map m ys = map p xs"
    by auto
  then show ?case by simp
qed

lemma text_cells_loaded:
  assumes "load files = Inr (st, sh)"
  shows "\<exists>tcs. text_cells st sh h = Inr tcs \<and>
           map text_marked tcs = map (\<lambda>seg. reaches sh seg h) (ordered_segments st)"
proof -
  have keys: "set (ordered_segments st) = set (map fst sh)"
    using ordered_segments_set [of st] load_keys [OF assms] by simp
  have "\<forall>seg \<in> set (ordered_segments st).
          \<exists>cell. text_cell st sh h seg = Inr cell \<and> text_marked cell = reaches sh seg h"
    using keys text_cell_key text_cell_marked by blast
  from collect_marked [OF this] show ?thesis
    unfolding text_cells_def by blast
qed

lemma html_cells_loaded:
  assumes "load files = Inr (st, sh)"
  shows "\<exists>hcs. html_cells st sh h = Inr hcs \<and>
           map html_marked hcs = map (\<lambda>seg. reaches sh seg h) (ordered_segments st)"
proof -
  have keys: "set (ordered_segments st) = set (map fst sh)"
    using ordered_segments_set [of st] load_keys [OF assms] by simp
  have "\<forall>seg \<in> set (ordered_segments st).
          \<exists>cell. html_cell st sh h seg = Inr cell \<and> html_marked cell = reaches sh seg h"
    using keys html_cell_key html_cell_marked by blast
  from collect_marked [OF this] show ?thesis
    unfolding html_cells_def by blast
qed

lemma text_cells_sample_5:
  "text_cells sample_types sample_hosts ''10.0.0.5'' =
     Inr [RED @ ''X'' @ RESET, RED @ ''X'' @ RESET, ''-'']"
  by (simp add: text_cells_def text_cell_def ordered_segments_def pci_segments_def
      non_pci_segments_def unknown_segments_def tier_of_def segments_reaching_def has_type_def
      sample_types_def sample_hosts_def)

lemma html_cells_sample_5:
  "html_cells sample_types sample_hosts ''10.0.0.5'' =
     Inr [''<td style='background:#ffcccc;text-align:center;'>X</td>'',
          ''<td style='background:#ffcccc;text-align:center;'>X</td>'',
          ''<td style='text-align:center;'>-</td>'']"
  by (simp add: html_cells_def html_cell_def ordered_segments_def pci_segments_def
      non_pci_segments_def unknown_segments_def tier_of_def segments_reaching_def has_type_def
      sample_types_def sample_hosts_def)

subsection \<open>The rendered matrices\<close>

lemma collect_map:
  assumes "\<forall>x \<in> set xs. f x = Inr (g x)"
  shows "collect f xs = Inr (map g xs)"
  using assms by (induction xs) simp_all

lemma text_cell_mark:
  assumes "seg \<in> set (map fst sh)"
  shows "text_cell st sh h seg = Inr (text_mark (tier_of st sh h) (reaches sh seg h))"
  unfolding text_cell_key [OF assms] text_mark_def ..

lemma html_cell_mark:
  assumes "seg \<in> set (map fst sh)"
  shows "html_cell st sh h seg = Inr (html_mark (tier_of st sh h) (reaches sh seg h))"
  unfolding html_cell_key [OF assms] html_mark_def by (cases "tier_of st sh h") simp_all

lemma marks_read_back:
  "text_marked (text_mark t reachable) = reachable"
  "html_marked (html_mark t reachable) = reachable"
  using text_marked_cells html_marked_cells
  by (cases t; cases reachable; simp add: text_mark_def html_mark_def)+

lemma text_rows_loaded:
  assumes "load files = Inr (st, sh)"
  shows "collect (text_row st sh hw sw) hosts =
     Inr (map (\<lambda>h. pad_cell h hw @ '' '' @
            concat (map (\<lambda>seg. pad_cell (text_mark (tier_of st sh h) (reaches sh seg h)) sw)
                     (ordered_segments st))) hosts)"
proof -
  have keys: "set (ordered_segments st) = set (map fst sh)"
    using ordered_segments_set [of st] load_keys [OF assms] by simp
  have "text_cells st sh h =
          Inr (map (\<lambda>seg. text_mark (tier_of st sh h) (reaches sh seg h)) (ordered_segments st))"
    for h
    unfolding text_cells_def using keys text_cell_mark by (intro collect_map) blast
  then show ?thesis by (intro collect_map) (simp add: text_row_def comp_def)
qed

lemma html_rows_loaded:
  assumes "load files = Inr (st, sh)"
  shows "collect (html_row st sh) hosts =
     Inr (map (\<lambda>h. ''<tr><td>'' @ h @ ''</td>'' @
            concat (map (\<lambda>seg. html_mark (tier_of st sh h) (reaches sh seg h))
                     (ordered_segments st)) @ ''</tr>'' @ NL) hosts)"
proof -
  have keys: "set (ordered_segments st) = set (map fst sh)"
    using ordered_segments_set [of st] load_keys [OF assms] by simp
  have "html_cells st sh h =
          Inr (map (\<lambda>seg. html_mark (tier_of st sh h) (reaches sh seg h)) (ordered_segments st))"
    for h
    unfolding html_cells_def using keys html_cell_mark by (intro collect_map) blast
  then show ?thesis by (intro collect_map) (simp add: html_row_def)
qed

lemma text_prints_matrix:
  assumes "load files = Inr (st, sh)"
  shows "\<exists>prints. text_prints st sh hosts hw sw = Inr prints \<and>
           take (2 + length hosts) (drop 10 prints) =
             text_matrix (ordered_segments st) hosts
               (\<lambda>h seg. text_mark (tier_of st sh h) (reaches sh seg h)) hw sw"
  by (simp add: text_prints_def text_rows_loaded [OF assms] Let_def text_matrix_def
      text_header_def)

lemma html_document_matrix:
  assumes "load files = Inr (st, sh)"
  shows "\<exists>before after. html_document st sh hosts =
           Inr (before @
                ''<table border='1' cellpadding='5' style='border-collapse:collapse;'>'' @ NL @
                html_matrix (ordered_segments st) hosts (html_th st)
                  (\<lambda>h seg. html_mark (tier_of st sh h) (reaches sh seg h)) @
                ''</table>'' @ NL @ after)"
proof -
  let ?before = "''<html><body>'' @ NL @
          ''<h2>Segment Classification</h2>'' @ NL @
          ''<ul>'' @
          ''<li><b style='color:green;'>PCI Segments:</b> '' @
            names_or_none (pci_segments st) @ ''</li>'' @
          ''<li><b style='color:orange;'>NON PCI Segments:</b> '' @
            names_or_none (non_pci_segments st) @ ''</li>'' @
          ''</ul>'' @
          ''<h2>Communication Matrix</h2>'' @ NL"
  let ?after = "''<p><b>Key:</b><br>'' @
          ''<span style='background:#ccffcc;'>Green</span>: Host is reachable from this segment only.<br>'' @
          ''<span style='background:#ffff99;'>Yellow</span>: Host is reachable from multiple segments.<br>'' @
          ''<span style='background:#ffcccc;'>Red</span>: Host is reachable from both PCI and non-PCI segments.<br>'' @
          ''</p>'' @ NL @
          ''<h2>Areas of Concern</h2>'' @ NL @
          (if areas_of_concern st sh hosts \<noteq> []
           then concat (map html_concern (areas_of_concern st sh hosts))
           else ''<div>No areas of concern detected based on current matrix.</div>'' @ NL) @
          ''</body></html>'' @ NL"
  have "html_document st sh hosts =
           Inr (?before @
                ''<table border='1' cellpadding='5' style='border-collapse:collapse;'>'' @ NL @
                html_matrix (ordered_segments st) hosts (html_th st)
                  (\<lambda>h seg. html_mark (tier_of st sh h) (reaches sh seg h)) @
                ''</table>'' @ NL @ ?after)"
    by (simp add: html_document_def html_rows_loaded [OF assms] html_matrix_def)
  then show ?thesis by blast
qed

lemma run_renders_matrices:
  assumes "load files = Inr (st, sh)" and "run enum files = Inr r"
  shows "\<exists>hw sw printed before after.
           col_widths (all_hosts enum sh) sh = Inr (hw, sw) \<and>
           stdout r = concat (map (\<lambda>s. s @ NL) printed) \<and>
           take (2 + length (all_hosts enum sh)) (drop 10 printed) =
             text_matrix (ordered_segments st) (all_hosts enum sh)
               (\<lambda>h seg. text_mark (tier_of st sh h) (reaches sh seg h)) hw sw \<and>
           html r = before @
             ''<table border='1' cellpadding='5' style='border-collapse:collapse;'>'' @ NL @
             html_matrix (ordered_segments st) (all_hosts enum sh) (html_th st)
               (\<lambda>h seg. html_mark (tier_of st sh h) (reaches sh seg h)) @
             ''</table>'' @ NL @ after"
proof -
  let ?hosts = "all_hosts enum sh"
  from assms obtain hw sw where w: "col_widths ?hosts sh = Inr (hw, sw)"
    by (auto simp: run_def Let_def split: sum.splits)
  from text_prints_matrix [OF assms(1), of ?hosts hw sw] obtain prints where
    p: "text_prints st sh ?hosts hw sw = Inr prints"
    and m: "take (2 + length ?hosts) (drop 10 prints) =
             text_matrix (ordered_segments st) ?hosts
               (\<lambda>h seg. text_mark (tier_of st sh h) (reaches sh seg h)) hw sw"
    by blast
  from html_document_matrix [OF assms(1), of ?hosts] obtain before after where
    d: "html_document st sh ?hosts =
           Inr (before @
                ''<table border='1' cellpadding='5' style='border-collapse:collapse;'>'' @ NL @
                html_matrix (ordered_segments st) ?hosts (html_th st)
                  (\<lambda>h seg. html_mark (tier_of st sh h) (reaches sh seg h)) @
                ''</table>'' @ NL @ after)"
    by blast
  let ?printed = "prints @
      [NL @ CYAN @ ''HTML report generated: segmentation_matrix.html'' @ RESET]"
  have len: "2 + length ?hosts \<le> length (drop 10 prints)"
    using arg_cong [OF m, of length] by (simp add: text_matrix_def Let_def)
  from assms(2) have r: "r = \<lparr>stdout = concat (map (\<lambda>s. s @ NL) ?printed),
       html = before @
                ''<table border='1' cellpadding='5' style='border-collapse:collapse;'>'' @ NL @
                html_matrix (ordered_segments st) ?hosts (html_th st)
                  (\<lambda>h seg. html_mark (tier_of st sh h) (reaches sh seg h)) @
                ''</table>'' @ NL @ after\<rparr>"
    unfolding run_def assms(1) by (simp add: w p d del: append_assoc)
  have "take (2 + length ?hosts) (drop 10 ?printed) =
          take (2 + length ?hosts) (drop 10 prints)"
    using len by simp
  with m w r show ?thesis
    by (intro exI [of _ hw] exI [of _ sw] exI [of _ ?printed] exI [of _ before]
        exI [of _ after]) simp
qed

lemma collect_ok:
  assumes "\<forall>x \<in> set xs. \<exists>y. f x = Inr y"
  shows "\<exists>ys. collect f xs = Inr ys"
  using assms
proof (induction xs)
  case Nil
  then show ?case by simp
next
  case (Cons x xs)
  then obtain y ys where "f x = Inr y" "collect f xs = Inr ys" by auto
  then show ?case by simp
qed

lemma run_completes:
  assumes "load files = Inr (st, sh)" and "valid_enum enum" and "union_hosts sh \<noteq> {}"
  shows "\<exists>r. run enum files = Inr r"
proof -
  let ?hosts = "all_hosts enum sh"
  have "set ?hosts = union_hosts sh"
    using all_hosts_sorted_list [OF assms(2,1)] load_finite [OF assms(1)] by simp
  with assms(3) have hosts: "?hosts \<noteq> []" by auto
  from assms(3) have sh: "sh \<noteq> []" by (auto simp: union_hosts_def)
  from hosts sh obtain hw sw where w: "col_widths ?hosts sh = Inr (hw, sw)"
    by (cases ?hosts; cases sh) (simp_all add: col_widths_def py_max_def)
  have "\<exists>row. text_row st sh hw sw h = Inr row" for h
    using text_cells_loaded [OF assms(1), of h] by (auto simp: text_row_def)
  then have "\<forall>h \<in> set ?hosts. \<exists>row. text_row st sh hw sw h = Inr row" by blast
  from collect_ok [OF this] obtain rows where
    rows: "collect (text_row st sh hw sw) ?hosts = Inr rows" ..
  then obtain prints where p: "text_prints st sh ?hosts hw sw = Inr prints"
    by (simp add: text_prints_def Let_def)
  have "\<exists>row. html_row st sh h = Inr row" for h
    using html_cells_loaded [OF assms(1), of h] by (auto simp: html_row_def)
  then have "\<forall>h \<in> set ?hosts. \<exists>row. html_row st sh h = Inr row" by blast
  from collect_ok [OF this] obtain hrows where
    "collect (html_row st sh) ?hosts = Inr hrows" ..
  then obtain document where d: "html_document st sh ?hosts = Inr document"
    by (simp add: html_document_def)
  show ?thesis by (simp add: run_def assms(1) w p d)
qed

lemma run_sample: "\<exists>r. run sorted_list_of_set sample_files = Inr r"
proof -
  have "union_hosts sample_hosts \<noteq> {}"
    by (simp add: union_hosts_Union sample_hosts_def)
  then show ?thesis
    by (rule run_completes [OF load_sample valid_enum_sorted_list_of_set])
qed

lemma col_widths_sample: "col_widths [''10.0.0.5'', ''10.0.0.9''] sample_hosts = Inr (15, 15)"
  by (simp add: col_widths_def py_max_def sample_hosts_def)

lemma text_matrix_sample:
  "text_matrix [''DMZ'', ''Corp'', ''Other''] [''10.0.0.5'', ''10.0.0.9'']
     (\<lambda>h seg. text_mark (tier_of sample_types sample_hosts h) (reaches sample_hosts seg h))
     15 15 = sample_text_matrix"
  by (simp add: text_matrix_def sample_text_matrix_def text_mark_def reaches_def tier_of_def
      segments_reaching_def has_type_def sample_types_def sample_hosts_def pad_cell_def
      strip_ansi_def ansi_len_def Let_def RED_def YELLOW_def GREEN_def RESET_def)

lemma html_matrix_sample:
  "html_matrix [''DMZ'', ''Corp'', ''Other''] [''10.0.0.5'', ''10.0.0.9'']
     (html_th sample_types)
     (\<lambda>h seg. html_mark (tier_of sample_types sample_hosts h) (reaches sample_hosts seg h)) =
   sample_html_matrix"
  by (simp add: html_matrix_def sample_html_matrix_def html_mark_def html_th_def reaches_def
      tier_of_def segments_reaching_def has_type_def pci_segments_def non_pci_segments_def
      sample_types_def sample_hosts_def NL_def)

text \<open>
  Claim C5. After a load, when the run completes: lines 11 onwards of standard output are
  the text matrix and the HTML file holds the HTML matrix, both over the same columns and
  the same rows, and for every host and segment the text cell shows \<^verbatim>\<open>X\<close> exactly when the
  host is in the segment's host set, and so does the HTML cell. The two cell loops go
  through the columns without raising and agree cell by cell.
\<close>

theorem text_and_html_mark_the_same_cells:
  assumes "load files = Inr (st, sh)" and "run enum files = Inr r"
  shows "\<exists>hw sw printed before after tcs hcs.
           col_widths (all_hosts enum sh) sh = Inr (hw, sw) \<and>
           stdout r = concat (map (\<lambda>s. s @ NL) printed) \<and>
           take (2 + length (all_hosts enum sh)) (drop 10 printed) =
             text_matrix (ordered_segments st) (all_hosts enum sh)
               (\<lambda>h seg. text_mark (tier_of st sh h) (reaches sh seg h)) hw sw \<and>
           html r = before @
             ''<table border='1' cellpadding='5' style='border-collapse:collapse;'>'' @ NL @
             html_matrix (ordered_segments st) (all_hosts enum sh) (html_th st)
               (\<lambda>h seg. html_mark (tier_of st sh h) (reaches sh seg h)) @
             ''</table>'' @ NL @ after \<and>
           text_marked (text_mark (tier_of st sh h) (reaches sh seg h)) = reaches sh seg h \<and>
           html_marked (html_mark (tier_of st sh h) (reaches sh seg h)) = reaches sh seg h \<and>
           text_marked (text_mark (tier_of st sh h) (reaches sh seg h)) =
             html_marked (html_mark (tier_of st sh h) (reaches sh seg h)) \<and>
           text_cells st sh h = Inr tcs \<and> html_cells st sh h = Inr hcs \<and>
           map text_marked tcs = map (\<lambda>seg. reaches sh seg h) (ordered_segments st) \<and>
           map html_marked hcs = map (\<lambda>seg. reaches sh seg h) (ordered_segments st) \<and>
           map text_marked tcs = map html_marked hcs \<and>
           text_row st sh host_col_width seg_col_width h =
             Inr (pad_cell h host_col_width @ '' '' @
                  concat (map (\<lambda>cell. pad_cell cell seg_col_width) tcs)) \<and>
           html_row st sh h = Inr (''<tr><td>'' @ h @ ''</td>'' @ concat hcs @ ''</tr>'' @ NL)"
proof -
  from text_cells_loaded [OF assms(1), of h] obtain tcs where
    t: "text_cells st sh h = Inr tcs"
       "map text_marked tcs = map (\<lambda>seg. reaches sh seg h) (ordered_segments st)"
    by blast
  from html_cells_loaded [OF assms(1), of h] obtain hcs where
    c: "html_cells st sh h = Inr hcs"
       "map html_marked hcs = map (\<lambda>seg. reaches sh seg h) (ordered_segments st)"
    by blast
  from run_renders_matrices [OF assms] obtain hw sw printed before after where
    m: "col_widths (all_hosts enum sh) sh = Inr (hw, sw)"
       "stdout r = concat (map (\<lambda>s. s @ NL) printed)"
       "take (2 + length (all_hosts enum sh)) (drop 10 printed) =
             text_matrix (ordered_segments st) (all_hosts enum sh)
               (\<lambda>h seg. text_mark (tier_of st sh h) (reaches sh seg h)) hw sw"
       "html r = before @
             ''<table border='1' cellpadding='5' style='border-collapse:collapse;'>'' @ NL @
             html_matrix (ordered_segments st) (all_hosts enum sh) (html_th st)
               (\<lambda>h seg. html_mark (tier_of st sh h) (reaches sh seg h)) @
             ''</table>'' @ NL @ after"
    by blast
  have rows: "text_row st sh host_col_width seg_col_width h =
             Inr (pad_cell h host_col_width @ '' '' @
                  concat (map (\<lambda>cell. pad_cell cell seg_col_width) tcs))"
       "html_row st sh h = Inr (''<tr><td>'' @ h @ ''</td>'' @ concat hcs @ ''</tr>'' @ NL)"
    using t(1) c(1) by (simp_all add: text_row_def html_row_def)
  have same: "map text_marked tcs = map html_marked hcs" using t(2) c(2) by simp
  show ?thesis
    using m t c rows same
    by (intro exI [of _ hw] exI [of _ sw] exI [of _ printed] exI [of _ before]
        exI [of _ after] exI [of _ tcs] exI [of _ hcs])
       (simp only: marks_read_back simp_thms)
qed

theorem text_and_html_mark_the_same_cells_witness:
  "\<exists>r printed before after.
     run sorted_list_of_set sample_files = Inr r \<and>
     stdout r = concat (map (\<lambda>s. s @ NL) printed) \<and>
     take 4 (drop 10 printed) = sample_text_matrix \<and>
     html r = before @
       ''<table border='1' cellpadding='5' style='border-collapse:collapse;'>'' @ NL @
       sample_html_matrix @ ''</table>'' @ NL @ after \<and>
     text_marked (text_mark (tier_of sample_types sample_hosts ''10.0.0.5'')
        (reaches sample_hosts ''DMZ'' ''10.0.0.5'')) \<and>
     html_marked (html_mark (tier_of sample_types sample_hosts ''10.0.0.5'')
        (reaches sample_hosts ''DMZ'' ''10.0.0.5'')) \<and>
     text_cells sample_types sample_hosts ''10.0.0.5'' =
       Inr [RED @ ''X'' @ RESET, RED @ ''X'' @ RESET, ''-''] \<and>
     html_cells sample_types sample_hosts ''10.0.0.5'' =
       Inr [''<td style='background:#ffcccc;text-align:center;'>X</td>'',
            ''<td style='background:#ffcccc;text-align:center;'>X</td>'',
            ''<td style='text-align:center;'>-</td>''] \<and>
     map text_marked [RED @ ''X'' @ RESET, RED @ ''X'' @ RESET, ''-''] =
     map html_marked [''<td style='background:#ffcccc;text-align:center;'>X</td>'',
            ''<td style='background:#ffcccc;text-align:center;'>X</td>'',
            ''<td style='text-align:center;'>-</td>'']"
proof -
  from run_sample obtain r where r: "run sorted_list_of_set sample_files = Inr r" ..
  have reach: "reaches sample_hosts ''DMZ'' ''10.0.0.5''"
    by (simp add: reaches_def sample_hosts_def)
  from text_and_html_mark_the_same_cells [OF load_sample r, of "''10.0.0.5''" "''DMZ''" 15 15]
  obtain hw sw printed before after tcs hcs where
    w: "col_widths (all_hosts sorted_list_of_set sample_hosts) sample_hosts = Inr (hw, sw)"
    and out: "stdout r = concat (map (\<lambda>s. s @ NL) printed)"
    and tm: "take (2 + length (all_hosts sorted_list_of_set sample_hosts)) (drop 10 printed) =
             text_matrix (ordered_segments sample_types) (all_hosts sorted_list_of_set sample_hosts)
               (\<lambda>h seg. text_mark (tier_of sample_types sample_hosts h)
                  (reaches sample_hosts seg h)) hw sw"
    and hm: "html r = before @
             ''<table border='1' cellpadding='5' style='border-collapse:collapse;'>'' @ NL @
             html_matrix (ordered_segments sample_types)
               (all_hosts sorted_list_of_set sample_hosts) (html_th sample_types)
               (\<lambda>h seg. html_mark (tier_of sample_types sample_hosts h)
                  (reaches sample_hosts seg h)) @
             ''</table>'' @ NL @ after"
    and marks: "text_marked (text_mark (tier_of sample_types sample_hosts ''10.0.0.5'')
        (reaches sample_hosts ''DMZ'' ''10.0.0.5'')) = reaches sample_hosts ''DMZ'' ''10.0.0.5''"
      "html_marked (html_mark (tier_of sample_types sample_hosts ''10.0.0.5'')
        (reaches sample_hosts ''DMZ'' ''10.0.0.5'')) = reaches sample_hosts ''DMZ'' ''10.0.0.5''"
    and cells: "text_cells sample_types sample_hosts ''10.0.0.5'' = Inr tcs"
      "html_cells sample_types sample_hosts ''10.0.0.5'' = Inr hcs"
      "map text_marked tcs = map html_marked hcs"
    by blast
  from w have hw: "hw = 15" and sw: "sw = 15"
    by (simp_all add: all_hosts_sample col_widths_sample)
  from tm have tm': "take 4 (drop 10 printed) = sample_text_matrix"
    unfolding all_hosts_sample ordered_sample hw sw text_matrix_sample by simp
  from hm have hm': "html r = before @
       ''<table border='1' cellpadding='5' style='border-collapse:collapse;'>'' @ NL @
       sample_html_matrix @ ''</table>'' @ NL @ after"
    unfolding all_hosts_sample ordered_sample html_matrix_sample .
  from cells have c: "tcs = [RED @ ''X'' @ RESET, RED @ ''X'' @ RESET, ''-'']"
    "hcs = [''<td style='background:#ffcccc;text-align:center;'>X</td>'',
            ''<td style='background:#ffcccc;text-align:center;'>X</td>'',
            ''<td style='text-align:center;'>-</td>'']"
    unfolding text_cells_sample_5 html_cells_sample_5 by simp_all
  from marks reach have m: "text_marked (text_mark (tier_of sample_types sample_hosts ''10.0.0.5'')
        (reaches sample_hosts ''DMZ'' ''10.0.0.5''))"
     "html_marked (html_mark (tier_of sample_types sample_hosts ''10.0.0.5'')
        (reaches sample_hosts ''DMZ'' ''10.0.0.5''))"
    by simp_all
  show ?thesis
    using r out tm' hm' m cells(3) text_cells_sample_5 html_cells_sample_5 unfolding c
    by (intro exI [of _ r] exI [of _ printed] exI [of _ before] exI [of _ after]) blast
qed

text \<open>
  Claim C8. After a load, take two columns of \<open>ordered_segments\<close>: when the type of the
  first comes earlier in the order \<open>Pci\<close>, \<open>NonPci\<close>, \<open>Unknown\<close> than the type of the second,
  the first stands to the left of the second. The columns are the segment names of the
  type table, each once. When the run completes, the text matrix on standard output and
  the HTML matrix in the file are both laid out over these columns in this order.
\<close>

theorem columns_ordered_by_type:
  assumes "load files = Inr (st, sh)" and "run enum files = Inr r"
    and "i < length (ordered_segments st)" and "j < length (ordered_segments st)"
    and "map_of st (ordered_segments st ! i) = Some ti"
    and "map_of st (ordered_segments st ! j) = Some tj"
    and "type_rank ti < type_rank tj"
  shows "i < j \<and> set (ordered_segments st) = set (map fst st) \<and>
         distinct (ordered_segments st) \<and>
         (\<exists>hw sw printed before after.
           col_widths (all_hosts enum sh) sh = Inr (hw, sw) \<and>
           stdout r = concat (map (\<lambda>s. s @ NL) printed) \<and>
           take (2 + length (all_hosts enum sh)) (drop 10 printed) =
             text_matrix (ordered_segments st) (all_hosts enum sh)
               (\<lambda>h seg. text_mark (tier_of st sh h) (reaches sh seg h)) hw sw \<and>
           html r = before @
             ''<table border='1' cellpadding='5' style='border-collapse:collapse;'>'' @ NL @
             html_matrix (ordered_segments st) (all_hosts enum sh) (html_th st)
               (\<lambda>h seg. html_mark (tier_of st sh h) (reaches sh seg h)) @
             ''</table>'' @ NL @ after)"
proof -
  from load_distinct [OF assms(1)] load_keys [OF assms(1)]
  have d: "distinct (map fst st)" by simp
  have "i < j"
  proof (rule ccontr)
    assume "\<not> i < j"
    then have "j \<le> i" by simp
    with assms(3) ordered_segments_sorted [OF d]
    have "column_rank st (ordered_segments st ! j) \<le> column_rank st (ordered_segments st ! i)"
      by (simp add: sorted_iff_nth_mono)
    with assms(5,6,7) show False by (simp add: column_rank_def)
  qed
  with ordered_segments_set [of st] ordered_segments_distinct [OF d]
    run_renders_matrices [OF assms(1,2)]
  show ?thesis by simp
qed

theorem columns_ordered_by_type_witness:
  "\<exists>r printed before after.
     run sorted_list_of_set sample_files = Inr r \<and>
     ordered_segments sample_types = [''DMZ'', ''Corp'', ''Other''] \<and>
     map_of sample_types ''DMZ'' = Some Pci \<and> map_of sample_types ''Corp'' = Some NonPci \<and>
     (0::nat) < 1 \<and>
     set (ordered_segments sample_types) = set (map fst sample_types) \<and>
     distinct (ordered_segments sample_types) \<and>
     stdout r = concat (map (\<lambda>s. s @ NL) printed) \<and>
     take 4 (drop 10 printed) = sample_text_matrix \<and>
     html r = before @
       ''<table border='1' cellpadding='5' style='border-collapse:collapse;'>'' @ NL @
       sample_html_matrix @ ''</table>'' @ NL @ after"
proof -
  from run_sample obtain r where r: "run sorted_list_of_set sample_files = Inr r" ..
  have i: "0 < length (ordered_segments sample_types)"
    and j: "1 < length (ordered_segments sample_types)"
    and ti: "map_of sample_types (ordered_segments sample_types ! 0) = Some Pci"
    and tj: "map_of sample_types (ordered_segments sample_types ! 1) = Some NonPci"
    and rk: "type_rank Pci < type_rank NonPci"
    by (simp_all add: ordered_sample) (simp_all add: sample_types_def)
  from columns_ordered_by_type [OF load_sample r i j ti tj rk]
  obtain hw sw printed before after where
    ord: "(0::nat) < 1" "set (ordered_segments sample_types) = set (map fst sample_types)"
      "distinct (ordered_segments sample_types)"
    and w: "col_widths (all_hosts sorted_list_of_set sample_hosts) sample_hosts = Inr (hw, sw)"
    and out: "stdout r = concat (map (\<lambda>s. s @ NL) printed)"
    and tm: "take (2 + length (all_hosts sorted_list_of_set sample_hosts)) (drop 10 printed) =
             text_matrix (ordered_segments sample_types) (all_hosts sorted_list_of_set sample_hosts)
               (\<lambda>h seg. text_mark (tier_of sample_types sample_hosts h)
                  (reaches sample_hosts seg h)) hw sw"
    and hm: "html r = before @
             ''<table border='1' cellpadding='5' style='border-collapse:collapse;'>'' @ NL @
             html_matrix (ordered_segments sample_types)
               (all_hosts sorted_list_of_set sample_hosts) (html_th sample_types)
               (\<lambda>h seg. html_mark (tier_of sample_types sample_hosts h)
                  (reaches sample_hosts seg h)) @
             ''</table>'' @ NL @ after"
    by (elim conjE exE) (rule that)
  from w have hw: "hw = 15" and sw: "sw = 15"
    by (simp_all add: all_hosts_sample col_widths_sample)
  from tm have tm': "take 4 (drop 10 printed) = sample_text_matrix"
    unfolding all_hosts_sample ordered_sample hw sw text_matrix_sample by simp
  from hm have hm': "html r = before @
       ''<table border='1' cellpadding='5' style='border-collapse:collapse;'>'' @ NL @
       sample_html_matrix @ ''</table>'' @ NL @ after"
    unfolding all_hosts_sample ordered_sample html_matrix_sample .
  have types: "map_of sample_types ''DMZ'' = Some Pci" "map_of sample_types ''Corp'' = Some NonPci"
    by (simp_all add: sample_types_def)
  show ?thesis
    using r out tm' hm' ord types ordered_sample
    by (intro exI [of _ r] exI [of _ printed] exI [of _ before] exI [of _ after]) blast
qed

subsection \<open>Independence of the set iteration order\<close>

text \<open>
  Claim C10. The result of a run (the text on standard output and the contents of the
  HTML file, or the exception) is a function of the ordered list of input files alone:
  two runs on the same list agree whatever order Python iterates its sets in, which is
  the one thing a run takes from outside that list.
\<close>

theorem run_independent_of_set_order:
  assumes "valid_enum enum1" and "valid_enum enum2"
  shows "run enum1 files = run enum2 files"
proof (cases "load files")
  case (Inl e)
  then show ?thesis by (simp add: run_def)
next
  case (Inr tables)
  obtain st sh where t: "tables = (st, sh)" by (cases tables)
  from Inr t have l: "load files = Inr (st, sh)" by simp
  have "all_hosts enum1 sh = all_hosts enum2 sh"
    using all_hosts_sorted_list [OF assms(1) l] all_hosts_sorted_list [OF assms(2) l] by simp
  then show ?thesis unfolding run_def l by simp
qed

theorem run_independent_of_set_order_witness:
  "run sorted_list_of_set sample_files = run (\<lambda>S. rev (sorted_list_of_set S)) sample_files"
  by (rule run_independent_of_set_order [OF valid_enum_sorted_list_of_set valid_enum_rev])

subsection \<open>The two-file scenario\<close>

lemma load_two:
  assumes "scan_lines {} lines1 = Inr hosts1" and "scan_lines {} lines2 = Inr hosts2"
    and "parse_segment name1 = (t1, seg1)" and "parse_segment name2 = (t2, seg2)"
    and "seg1 \<noteq> seg2"
  shows "load [(name1, lines1), (name2, lines2)] =
           Inr ([(seg1, t1), (seg2, t2)], [(seg1, hosts1), (seg2, hosts2)])"
  using assms by (simp add: load_def load_file_def)

lemma all_hosts_single:
  assumes "valid_enum enum" and "union_hosts sh = {h}"
  shows "all_hosts enum sh = [h]"
  using sort_enum [OF assms(1), of "{h}"] assms(2) by (simp add: all_hosts_def)

lemma scenario_tables:
  assumes "valid_enum enum"
    and "st = [(''DMZ'', Pci), (''Corp'', NonPci)] \<and>
           sh = [(''DMZ'', {''10.0.0.5''}), (''Corp'', {''10.0.0.5''})] \<or>
         st = [(''Corp'', NonPci), (''DMZ'', Pci)] \<and>
           sh = [(''Corp'', {''10.0.0.5''}), (''DMZ'', {''10.0.0.5''})]"
  shows "all_hosts enum sh = [''10.0.0.5'']"
    and "ordered_segments st = [''DMZ'', ''Corp'']"
    and "tier_of st sh ''10.0.0.5'' = Critical"
    and "text_cells st sh ''10.0.0.5'' = Inr [RED @ ''X'' @ RESET, RED @ ''X'' @ RESET]"
    and "html_cells st sh ''10.0.0.5'' =
           Inr [''<td style='background:#ffcccc;text-align:center;'>X</td>'',
                ''<td style='background:#ffcccc;text-align:center;'>X</td>'']"
    and "map fst (areas_of_concern st sh [''10.0.0.5'']) = [Yellow, Red]"
proof -
  from assms(2) have "union_hosts sh = {''10.0.0.5''}"
    by (auto simp: union_hosts_Union)
  then show "all_hosts enum sh = [''10.0.0.5'']"
    by (rule all_hosts_single [OF assms(1)])
  from assms(2) show "ordered_segments st = [''DMZ'', ''Corp'']"
    by (auto simp: ordered_segments_def pci_segments_def non_pci_segments_def
        unknown_segments_def)
  from assms(2) show tier: "tier_of st sh ''10.0.0.5'' = Critical"
    by (auto simp: tier_of_def segments_reaching_def has_type_def)
  from assms(2) show "text_cells st sh ''10.0.0.5'' = Inr [RED @ ''X'' @ RESET, RED @ ''X'' @ RESET]"
    by (auto simp: text_cells_def text_cell_def ordered_segments_def pci_segments_def
        non_pci_segments_def unknown_segments_def tier_of_def segments_reaching_def has_type_def)
  from assms(2) show "html_cells st sh ''10.0.0.5'' =
           Inr [''<td style='background:#ffcccc;text-align:center;'>X</td>'',
                ''<td style='background:#ffcccc;text-align:center;'>X</td>'']"
    by (auto simp: html_cells_def html_cell_def ordered_segments_def pci_segments_def
        non_pci_segments_def unknown_segments_def tier_of_def segments_reaching_def has_type_def)
  from assms(2) show "map fst (areas_of_concern st sh [''10.0.0.5'']) = [Yellow, Red]"
    by (auto simp: areas_of_concern_def host_concerns_def segments_reaching_def has_type_def)
qed

lemmas renderer_defs =
  text_prints_def text_row_def text_cells_def text_cell_def text_header_def pad_cell_def
  strip_ansi_def ansi_len_def names_or_none_def text_concern_def concern_found_def
  is_concern_def areas_of_concern_def host_concerns_def tier_of_def segments_reaching_def
  has_type_def ordered_segments_def pci_segments_def non_pci_segments_def unknown_segments_def
  html_document_def html_row_def html_cells_def html_cell_def html_th_def html_concern_def
  col_widths_def py_max_def Let_def RED_def YELLOW_def GREEN_def RESET_def BOLD_def CYAN_def NL_def

lemma scenario_run_first:
  assumes "st = [(''DMZ'', Pci), (''Corp'', NonPci)]"
    and "sh = [(''DMZ'', {''10.0.0.5''}), (''Corp'', {''10.0.0.5''})]"
  shows "col_widths [''10.0.0.5''] sh = Inr (15, 15)"
    and "\<exists>prints. text_prints st sh [''10.0.0.5''] 15 15 = Inr prints \<and>
           concat (map (\<lambda>s. s @ NL)
             (prints @ [NL @ CYAN @ ''HTML report generated: segmentation_matrix.html'' @ RESET])) =
           scenario_stdout ''DMZ, Corp''"
    and "html_document st sh [''10.0.0.5''] = Inr (scenario_html ''DMZ, Corp'')"
  unfolding assms
  by (simp_all add: renderer_defs scenario_stdout_def scenario_html_def)

lemma scenario_run_second:
  assumes "st = [(''Corp'', NonPci), (''DMZ'', Pci)]"
    and "sh = [(''Corp'', {''10.0.0.5''}), (''DMZ'', {''10.0.0.5''})]"
  shows "col_widths [''10.0.0.5''] sh = Inr (15, 15)"
    and "\<exists>prints. text_prints st sh [''10.0.0.5''] 15 15 = Inr prints \<and>
           concat (map (\<lambda>s. s @ NL)
             (prints @ [NL @ CYAN @ ''HTML report generated: segmentation_matrix.html'' @ RESET])) =
           scenario_stdout ''Corp, DMZ''"
    and "html_document st sh [''10.0.0.5''] = Inr (scenario_html ''Corp, DMZ'')"
  unfolding assms
  by (simp_all add: renderer_defs scenario_stdout_def scenario_html_def)

lemma run_from_parts:
  assumes "load files = Inr (st, sh)" and "all_hosts enum sh = hosts"
    and "col_widths hosts sh = Inr (hw, sw)"
    and "\<exists>prints. text_prints st sh hosts hw sw = Inr prints \<and>
           concat (map (\<lambda>s. s @ NL)
             (prints @ [NL @ CYAN @ ''HTML report generated: segmentation_matrix.html'' @ RESET])) =
           out"
    and "html_document st sh hosts = Inr doc"
  shows "run enum files = Inr \<lparr>stdout = out, html = doc\<rparr>"
  using assms(4) by (auto simp: run_def assms(1,2,3,5))

text \<open>
  Claim C4, as amended. For the two files \<^verbatim>\<open>PCI - DMZ.gnmap\<close> and \<^verbatim>\<open>NON PCI - Corp.gnmap\<close>,
  in either order, each with \<^verbatim>\<open>10.0.0.5\<close> as its one reachable host: the run completes, and
  standard output and the HTML file are exactly \<open>scenario_stdout\<close> and \<open>scenario_html\<close>. The
  matrix has the one row \<^verbatim>\<open>10.0.0.5\<close> and the two columns \<^verbatim>\<open>DMZ\<close>, \<^verbatim>\<open>Corp\<close>, both cells are
  marked in the critical colour in both renderers, the tier of the host is \<open>Critical\<close>, and
  two concern lines are emitted for it: the one for several segments, then the one for
  PCI and non-PCI segments.
\<close>

theorem two_file_scenario:
  assumes "valid_enum enum"
    and "scan_lines {} lines1 = Inr {''10.0.0.5''}"
    and "scan_lines {} lines2 = Inr {''10.0.0.5''}"
    and "files = [(''PCI - DMZ.gnmap'', lines1), (''NON PCI - Corp.gnmap'', lines2)] \<and>
           reaching = ''DMZ, Corp'' \<or>
         files = [(''NON PCI - Corp.gnmap'', lines2), (''PCI - DMZ.gnmap'', lines1)] \<and>
           reaching = ''Corp, DMZ''"
  shows "\<exists>st sh r.
           load files = Inr (st, sh) \<and> run enum files = Inr r \<and>
           stdout r = scenario_stdout reaching \<and>
           html r = scenario_html reaching \<and>
           all_hosts enum sh = [''10.0.0.5''] \<and>
           ordered_segments st = [''DMZ'', ''Corp''] \<and>
           text_cells st sh ''10.0.0.5'' = Inr [RED @ ''X'' @ RESET, RED @ ''X'' @ RESET] \<and>
           html_cells st sh ''10.0.0.5'' =
             Inr [''<td style='background:#ffcccc;text-align:center;'>X</td>'',
                  ''<td style='background:#ffcccc;text-align:center;'>X</td>''] \<and>
           tier_of st sh ''10.0.0.5'' = Critical \<and>
           map fst (areas_of_concern st sh (all_hosts enum sh)) = [Yellow, Red]"
proof -
  from assms(4) obtain st sh where l: "load files = Inr (st, sh)"
    and tables: "st = [(''DMZ'', Pci), (''Corp'', NonPci)] \<and>
           sh = [(''DMZ'', {''10.0.0.5''}), (''Corp'', {''10.0.0.5''})] \<and>
           reaching = ''DMZ, Corp'' \<or>
         st = [(''Corp'', NonPci), (''DMZ'', Pci)] \<and>
           sh = [(''Corp'', {''10.0.0.5''}), (''DMZ'', {''10.0.0.5''})] \<and>
           reaching = ''Corp, DMZ''"
    using load_two [OF assms(2,3) parse_samples(1,2)] load_two [OF assms(3,2) parse_samples(2,1)]
    by auto
  from tables have tables': "st = [(''DMZ'', Pci), (''Corp'', NonPci)] \<and>
           sh = [(''DMZ'', {''10.0.0.5''}), (''Corp'', {''10.0.0.5''})] \<or>
         st = [(''Corp'', NonPci), (''DMZ'', Pci)] \<and>
           sh = [(''Corp'', {''10.0.0.5''}), (''DMZ'', {''10.0.0.5''})]"
    by blast
  note s = scenario_tables [OF assms(1) tables']
  from tables have "run enum files =
      Inr \<lparr>stdout = scenario_stdout reaching, html = scenario_html reaching\<rparr>"
  proof
    assume t: "st = [(''DMZ'', Pci), (''Corp'', NonPci)] \<and>
           sh = [(''DMZ'', {''10.0.0.5''}), (''Corp'', {''10.0.0.5''})] \<and>
           reaching = ''DMZ, Corp''"
    then have st: "st = [(''DMZ'', Pci), (''Corp'', NonPci)]"
      and sh: "sh = [(''DMZ'', {''10.0.0.5''}), (''Corp'', {''10.0.0.5''})]"
      and re: "reaching = ''DMZ, Corp''" by simp_all
    show ?thesis unfolding re
      by (rule run_from_parts [OF l s(1) scenario_run_first [OF st sh]])
  next
    assume t: "st = [(''Corp'', NonPci), (''DMZ'', Pci)] \<and>
           sh = [(''Corp'', {''10.0.0.5''}), (''DMZ'', {''10.0.0.5''})] \<and>
           reaching = ''Corp, DMZ''"
    then have st: "st = [(''Corp'', NonPci), (''DMZ'', Pci)]"
      and sh: "sh = [(''Corp'', {''10.0.0.5''}), (''DMZ'', {''10.0.0.5''})]"
      and re: "reaching = ''Corp, DMZ''" by simp_all
    show ?thesis unfolding re
      by (rule run_from_parts [OF l s(1) scenario_run_second [OF st sh]])
  qed
  with l s show ?thesis by simp
qed

lemma scan_scenario:
  "scan_lines {} [sample_comment, sample_open ''10.0.0.5''] = Inr {''10.0.0.5''}"
  "scan_lines {} [sample_open ''10.0.0.5''] = Inr {''10.0.0.5''}"
  by (simp_all add: scan_line_samples)

lemma load_scenario:
  "load scenario_files =
     Inr ([(''DMZ'', Pci), (''Corp'', NonPci)],
          [(''DMZ'', {''10.0.0.5''}), (''Corp'', {''10.0.0.5''})])"
  unfolding scenario_files_def
  by (rule load_two [OF scan_scenario parse_samples(1,2)]) simp

theorem two_file_scenario_witness:
  "\<exists>st sh r.
     load scenario_files = Inr (st, sh) \<and> run sorted_list_of_set scenario_files = Inr r \<and>
     stdout r = scenario_stdout ''DMZ, Corp'' \<and>
     html r = scenario_html ''DMZ, Corp'' \<and>
     all_hosts sorted_list_of_set sh = [''10.0.0.5''] \<and>
     ordered_segments st = [''DMZ'', ''Corp''] \<and>
     text_cells st sh ''10.0.0.5'' = Inr [RED @ ''X'' @ RESET, RED @ ''X'' @ RESET] \<and>
     html_cells st sh ''10.0.0.5'' =
       Inr [''<td style='background:#ffcccc;text-align:center;'>X</td>'',
            ''<td style='background:#ffcccc;text-align:center;'>X</td>''] \<and>
     tier_of st sh ''10.0.0.5'' = Critical \<and>
     map fst (areas_of_concern st sh (all_hosts sorted_list_of_set sh)) = [Yellow, Red]"
proof -
  have "scenario_files =
          [(''PCI - DMZ.gnmap'', [sample_comment, sample_open ''10.0.0.5'']),
           (''NON PCI - Corp.gnmap'', [sample_open ''10.0.0.5''])] \<and>
          ''DMZ, Corp'' = ''DMZ, Corp'' \<or>
        scenario_files =
          [(''NON PCI - Corp.gnmap'', [sample_open ''10.0.0.5'']),
           (''PCI - DMZ.gnmap'', [sample_comment, sample_open ''10.0.0.5''])] \<and>
          ''DMZ, Corp'' = ''Corp, DMZ''"
    by (simp add: scenario_files_def)
  from two_file_scenario [OF valid_enum_sorted_list_of_set scan_scenario this]
  show ?thesis .
qed

text \<open>The scenario emits two concern entries for the host, not one.\<close>

theorem scenario_emits_two_concern_lines:
  "load scenario_files =
     Inr ([(''DMZ'', Pci), (''Corp'', NonPci)],
          [(''DMZ'', {''10.0.0.5''}), (''Corp'', {''10.0.0.5''})]) \<and>
   all_hosts sorted_list_of_set [(''DMZ'', {''10.0.0.5''}), (''Corp'', {''10.0.0.5''})] =
     [''10.0.0.5''] \<and>
   areas_of_concern [(''DMZ'', Pci), (''Corp'', NonPci)]
       [(''DMZ'', {''10.0.0.5''}), (''Corp'', {''10.0.0.5''})] [''10.0.0.5''] =
     [(Yellow, ''- Host 10.0.0.5 is reachable from multiple segments: DMZ, Corp''),
      (Red, ''[!] Host 10.0.0.5 is reachable from both PCI and non-PCI segments: DMZ, Corp'')] \<and>
   length (areas_of_concern [(''DMZ'', Pci), (''Corp'', NonPci)]
       [(''DMZ'', {''10.0.0.5''}), (''Corp'', {''10.0.0.5''})] [''10.0.0.5'']) \<noteq> 1"
proof -
  have "all_hosts sorted_list_of_set [(''DMZ'', {''10.0.0.5''}), (''Corp'', {''10.0.0.5''})] =
          [''10.0.0.5'']"
    by (rule all_hosts_single [OF valid_enum_sorted_list_of_set]) (simp add: union_hosts_def)
  moreover have "areas_of_concern [(''DMZ'', Pci), (''Corp'', NonPci)]
       [(''DMZ'', {''10.0.0.5''}), (''Corp'', {''10.0.0.5''})] [''10.0.0.5''] =
     [(Yellow, ''- Host 10.0.0.5 is reachable from multiple segments: DMZ, Corp''),
      (Red, ''[!] Host 10.0.0.5 is reachable from both PCI and non-PCI segments: DMZ, Corp'')]"
    by (simp add: areas_of_concern_def host_concerns_def segments_reaching_def has_type_def)
  ultimately show ?thesis using load_scenario by simp
qed

end
